theory Spec2Isabelle
  imports Complex_Main
begin

section \<open>Python values\<close>

text \<open>
  The native values the module handles. A Python float is carried as the extended real
  it denotes (or NaN); only its comparison with other numbers is used here, its text
  form belongs to the primitive codec.
\<close>

datatype pyfloat = Finite real | PosInf | NegInf | NaN

datatype pyprim = PStr string | PBool bool | PNone | PInt int | PFloat pyfloat

text \<open>
  \<open>PDict\<close> lists the entries of a dict in insertion order; \<open>POther\<close> stands for a value of
  any other Python type (the last branch of \<open>_to_tokens\<close>).
\<close>

datatype pyval =
    PPrim pyprim
  | PList "pyval list"
  | PTuple "pyval list"
  | PDict "(pyval \<times> pyval) list"
  | POther

text \<open>Python's \<open>==\<close> on primitives: booleans are the integers 0 and 1, numbers compare by value.\<close>

fun num_of :: "pyprim \<Rightarrow> pyfloat option" where
  "num_of (PBool b) = Some (Finite (if b then 1 else 0))"
| "num_of (PInt i) = Some (Finite (real_of_int i))"
| "num_of (PFloat f) = Some f"
| "num_of (PStr s) = None"
| "num_of PNone = None"

fun prim_eq :: "pyprim \<Rightarrow> pyprim \<Rightarrow> bool" where
  "prim_eq (PStr s) (PStr t) = (s = t)"
| "prim_eq PNone PNone = True"
| "prim_eq a b =
     (case (num_of a, num_of b) of
        (Some x, Some y) \<Rightarrow> x \<noteq> NaN \<and> x = y
      | _ \<Rightarrow> False)"

text \<open>\<open>p == key\<close> for a primitive \<open>p\<close> and any path segment \<open>key\<close>.\<close>

fun py_eq :: "pyprim \<Rightarrow> pyval \<Rightarrow> bool" where
  "py_eq p (PPrim q) = prim_eq p q"
| "py_eq p v = False"

section \<open>Exceptions\<close>

datatype exc_class = AssertionError | TypeError | IndexError | AttributeError | ParseError

text \<open>An exception is its class and its message (the format string, where it has one).\<close>

datatype error = Raise exc_class string

section \<open>Tokens and the tree\<close>

text \<open>
  Modelled from the spec: the module \<open>dumbconf.ast\<close> is not among the sources. Section 3
  of the spec gives its shape: tokens with a \<open>src\<close>, primitive nodes with \<open>val\<close> and \<open>src\<close>,
  containers holding items, items with \<open>key\<close>, \<open>val\<close>, \<open>head\<close> and \<open>tail\<close>, and the two
  container flags. The constructor names are those \<open>_roundtrip.py\<close> uses. The document
  and the items of a list are items without key. Since every token is kept, an item also
  holds the tokens between its key and its value (\<open>inner\<close>) and a container its opening
  and closing tokens (\<open>c_head\<close>, \<open>c_tail\<close>). The two flags are derived in the absent
  module; here they are fields, set when the container is built and kept by
  \<open>_replace(items=...)\<close>.
\<close>

datatype tkind =
  Comma | Space | NL | Indent | Colon | MapStart | MapEnd | ListStart | ListEnd | EOF | Comment

datatype pkind = String | Bool | Null | IntK | Float | BareWordKey

datatype primitive = Primitive (p_kind: pkind) (p_val: pyprim) (p_src: string)

datatype token = Tok tkind string | PrimTok primitive

fun src :: "token \<Rightarrow> string" where
  "src (Tok k s) = s"
| "src (PrimTok p) = p_src p"

record cinfo =
  is_multiline :: bool
  is_top_level_style :: bool
  c_head :: "token list"
  c_tail :: "token list"

datatype node =
    Prim primitive
  | List cinfo "item list"
  | Map cinfo "item list"
and item =
    Item (head: "token list") (key: "primitive option") (inner: "token list")
         (val: node) (tail: "token list")

section \<open>Settings and the primitive codec\<close>

record Settings =
  indent :: int
  bare_keys :: bool
  inline_small_containers :: bool

text \<open>The property \<open>indented\<close>: \<open>assert self.indent >= 0\<close>, then one level deeper.\<close>

definition indented :: "Settings \<Rightarrow> error + Settings" where
  "indented s =
     (if indent s \<ge> 0 then Inr (s\<lparr>indent := indent s + 1\<rparr>)
      else Inl (Raise AssertionError []))"

definition DEFAULT :: Settings where
  "DEFAULT = \<lparr>indent = - 1, bare_keys = True, inline_small_containers = True\<rparr>"

text \<open>
  The encoders of \<open>dumbconf._primitive\<close> and the bare-word pattern of
  \<open>dumbconf._tokenize\<close> are not among the sources: they are a parameter of the
  synthesizer.
\<close>

record codec =
  String_dump :: "string \<Rightarrow> string"
  Bool_dump :: "bool \<Rightarrow> string"
  Null_dump :: string
  Int_dump :: "int \<Rightarrow> string"
  Float_dump :: "pyfloat \<Rightarrow> string"
  BARE_WORD_FULL_MATCH :: "string \<Rightarrow> bool"

section \<open>Formatting policy and synthesizer\<close>

text \<open>\<open>'    ' * n\<close>: the empty string when \<open>n\<close> is not positive.\<close>

definition spaces4 :: "int \<Rightarrow> string" where
  "spaces4 n = concat (replicate (nat n) ''    '')"

definition nl_src :: string where
  "nl_src = [CHR 0x0A]"

text \<open>The loop \<open>for item in items[1:]\<close> of \<open>_inline\<close>, \<open>ret\<close> being the list built so far.\<close>

fun inline_loop ::
  "('a \<Rightarrow> Settings \<Rightarrow> error + token list) \<Rightarrow> Settings \<Rightarrow> 'a list \<Rightarrow> token list
     \<Rightarrow> error + token list" where
  "inline_loop item_func settings [] ret = Inr ret"
| "inline_loop item_func settings (x # xs) ret =
     (case item_func x settings of
        Inl e \<Rightarrow> Inl e
      | Inr ts \<Rightarrow> inline_loop item_func settings xs (ret @ [Tok Comma '','', Tok Space '' ''] @ ts))"

text \<open>
  \<open>_inline\<close>, \<open>_multiline\<close> and \<open>_container\<close>. The fields of \<open>container_settings\<close> are passed
  one by one: \<open>item_func\<close>, \<open>start\<close>, \<open>end\<close>; the value arrives as \<open>to_iter(val)\<close>, which is
  empty exactly when \<open>not val\<close>.
\<close>

definition inline ::
  "('a \<Rightarrow> Settings \<Rightarrow> error + token list) \<Rightarrow> token \<Rightarrow> token \<Rightarrow> 'a list \<Rightarrow> Settings
     \<Rightarrow> error + token list" where
  "inline item_func start end items settings =
     (case items of
        [] \<Rightarrow> Inr ([start] @ [end])
      | x # xs \<Rightarrow>
          (case item_func x settings of
             Inl e \<Rightarrow> Inl e
           | Inr ts \<Rightarrow>
               (case inline_loop item_func settings xs ([start] @ ts) of
                  Inl e \<Rightarrow> Inl e
                | Inr ret \<Rightarrow> Inr (ret @ [end]))))"

fun multiline_loop ::
  "('a \<Rightarrow> Settings \<Rightarrow> error + token list) \<Rightarrow> Settings \<Rightarrow> 'a list \<Rightarrow> token list
     \<Rightarrow> error + token list" where
  "multiline_loop item_func settings [] ret = Inr ret"
| "multiline_loop item_func settings (x # xs) ret =
     (case indented settings of
        Inl e \<Rightarrow> Inl e
      | Inr deeper \<Rightarrow>
          (case item_func x deeper of
             Inl e \<Rightarrow> Inl e
           | Inr ts \<Rightarrow>
               multiline_loop item_func settings xs
                 (ret @ [Tok Indent (spaces4 (indent deeper))] @ ts
                      @ [Tok Comma '','', Tok NL nl_src])))"

definition multiline ::
  "('a \<Rightarrow> Settings \<Rightarrow> error + token list) \<Rightarrow> token \<Rightarrow> token \<Rightarrow> 'a list \<Rightarrow> Settings
     \<Rightarrow> error + token list" where
  "multiline item_func start end items settings =
     (case multiline_loop item_func settings items [start, Tok NL nl_src] of
        Inl e \<Rightarrow> Inl e
      | Inr ret \<Rightarrow>
          Inr ((if indent settings > 0 then ret @ [Tok Indent (spaces4 (indent settings))]
                else ret) @ [end]))"

definition container ::
  "('a \<Rightarrow> Settings \<Rightarrow> error + token list) \<Rightarrow> token \<Rightarrow> token \<Rightarrow> 'a list \<Rightarrow> Settings
     \<Rightarrow> error + token list" where
  "container item_func start end items settings =
     (if indent settings < 0 \<or> items = [] \<or>
         (inline_small_containers settings \<and> length items < 2)
      then inline item_func start end items settings
      else multiline item_func start end items settings)"

text \<open>The loop of \<open>_top_level_map_tokens\<close>.\<close>

fun top_level_map_loop ::
  "('a \<Rightarrow> Settings \<Rightarrow> error + token list) \<Rightarrow> Settings \<Rightarrow> 'a list \<Rightarrow> token list
     \<Rightarrow> error + token list" where
  "top_level_map_loop item_func settings [] tokens = Inr tokens"
| "top_level_map_loop item_func settings (kv # kvs) tokens =
     (case item_func kv settings of
        Inl e \<Rightarrow> Inl e
      | Inr ts \<Rightarrow> top_level_map_loop item_func settings kvs (tokens @ ts @ [Tok NL nl_src]))"

lemma inline_loop_cong [fundef_cong]:
  "\<lbrakk>xs = ys; s = t; r = q; \<And>x u. x \<in> set ys \<Longrightarrow> f x u = g x u\<rbrakk>
     \<Longrightarrow> inline_loop f s xs r = inline_loop g t ys q"
  by (induction ys arbitrary: xs r q) (auto split: sum.splits)

lemma multiline_loop_cong [fundef_cong]:
  "\<lbrakk>xs = ys; s = t; r = q; \<And>x u. x \<in> set ys \<Longrightarrow> f x u = g x u\<rbrakk>
     \<Longrightarrow> multiline_loop f s xs r = multiline_loop g t ys q"
  by (induction ys arbitrary: xs r q) (auto split: sum.splits)

lemma top_level_map_loop_cong [fundef_cong]:
  "\<lbrakk>xs = ys; s = t; r = q; \<And>x u. x \<in> set ys \<Longrightarrow> f x u = g x u\<rbrakk>
     \<Longrightarrow> top_level_map_loop f s xs r = top_level_map_loop g t ys q"
  by (induction ys arbitrary: xs r q) (auto split: sum.splits)

lemma inline_cong [fundef_cong]:
  "\<lbrakk>xs = ys; s = t; a = a'; b = b'; \<And>x u. x \<in> set ys \<Longrightarrow> f x u = g x u\<rbrakk>
     \<Longrightarrow> inline f a b xs s = inline g a' b' ys t"
  unfolding inline_def
  by (cases ys) (auto split: sum.splits cong: inline_loop_cong)

lemma multiline_cong [fundef_cong]:
  "\<lbrakk>xs = ys; s = t; a = a'; b = b'; \<And>x u. x \<in> set ys \<Longrightarrow> f x u = g x u\<rbrakk>
     \<Longrightarrow> multiline f a b xs s = multiline g a' b' ys t"
  unfolding multiline_def
  by (auto split: sum.splits cong: multiline_loop_cong)

lemma container_cong [fundef_cong]:
  "\<lbrakk>xs = ys; s = t; a = a'; b = b'; \<And>x u. x \<in> set ys \<Longrightarrow> f x u = g x u\<rbrakk>
     \<Longrightarrow> container f a b xs s = container g a' b' ys t"
  unfolding container_def
  by (auto cong: inline_cong multiline_cong)

lemma size_pyval_elem: "x \<in> set xs \<Longrightarrow> size x < Suc (size_list size xs)"
  by (induction xs) auto

lemma size_pyval_entry:
  "kv \<in> set d \<Longrightarrow>
     size (fst kv) + size (snd kv) < size_list (\<lambda>x. Suc (size (fst x) + size (snd x))) d"
  by (induction d) auto

text \<open>
  \<open>_to_tokens\<close> and \<open>_map_item_tokens\<close>. \<open>_map_tokens\<close> and \<open>_list_tokens\<close> are \<open>_container\<close>
  with the brackets and the item function fixed; a dict is iterated as its entries, a
  list or tuple as its elements.
\<close>

function to_tokens ::
    "codec \<Rightarrow> pyval \<Rightarrow> Settings \<Rightarrow> bool \<Rightarrow> bool \<Rightarrow> error + token list"
  and map_item_tokens :: "codec \<Rightarrow> pyval \<times> pyval \<Rightarrow> Settings \<Rightarrow> error + token list"
where
  "to_tokens c v settings as_key top_level_map =
     (case v of
        PPrim (PStr s) \<Rightarrow>
          if bare_keys settings \<and> as_key \<and> BARE_WORD_FULL_MATCH c s
          then Inr [PrimTok (Primitive BareWordKey (PStr s) s)]
          else Inr [PrimTok (Primitive String (PStr s) (String_dump c s))]
      | PPrim (PBool b) \<Rightarrow> Inr [PrimTok (Primitive Bool (PBool b) (Bool_dump c b))]
      | PPrim PNone \<Rightarrow> Inr [PrimTok (Primitive Null PNone (Null_dump c))]
      | PPrim (PInt i) \<Rightarrow> Inr [PrimTok (Primitive IntK (PInt i) (Int_dump c i))]
      | PPrim (PFloat f) \<Rightarrow> Inr [PrimTok (Primitive Float (PFloat f) (Float_dump c f))]
      | PDict d \<Rightarrow>
          if d \<noteq> [] \<and> (top_level_map \<and> indent settings = 0)
          then top_level_map_loop (map_item_tokens c) settings d []
          else container (map_item_tokens c) (Tok MapStart ''{'') (Tok MapEnd ''}'') d settings
      | PTuple xs \<Rightarrow>
          container (\<lambda>x s. to_tokens c x s False False)
            (Tok ListStart ''['') (Tok ListEnd '']'') xs settings
      | PList xs \<Rightarrow>
          container (\<lambda>x s. to_tokens c x s False False)
            (Tok ListStart ''['') (Tok ListEnd '']'') xs settings
      | POther \<Rightarrow> Inl (Raise AssertionError ''Unexpected value {!r}''))"
| "map_item_tokens c kv settings =
     (case to_tokens c (fst kv) settings True False of
        Inl e \<Rightarrow> Inl e
      | Inr kt \<Rightarrow>
          (case to_tokens c (snd kv) settings False False of
             Inl e \<Rightarrow> Inl e
           | Inr vt \<Rightarrow> Inr (kt @ [Tok Colon '':'', Tok Space '' ''] @ vt)))"
  by pat_completeness auto

termination
  apply (relation "measure (\<lambda>x. case x of
           Inl (c, v, s, k, t) \<Rightarrow> 2 * size v
         | Inr (c, kv, s) \<Rightarrow> 2 * (size (fst kv) + size (snd kv)) + 1)")
  apply simp
  apply (auto dest: size_pyval_entry size_pyval_elem simp: size_prod_simp)
  done

declare to_tokens.simps [simp del] map_item_tokens.simps [simp del]

section \<open>The token parser and the un-parser\<close>

text \<open>
  Modelled from the spec: \<open>parse_from_tokens\<close> and \<open>unparse\<close> of \<open>dumbconf._parse\<close> are
  not among the sources. The grammar is that of the three container forms of section 4.1
  (inline, multiline, braceless top level); an item's \<open>head\<close> is the indentation, comment
  lines and blank lines before it, its \<open>tail\<close> the comma, space, trailing comment and
  newline after it (section 3); a key is a primitive token; every token is kept in the
  tree, so that un-parsing concatenates the stored sources in document order.
\<close>

definition perr :: error where
  "perr = Raise ParseError []"

fun tok_is :: "tkind \<Rightarrow> token \<Rightarrow> bool" where
  "tok_is k (Tok k' s) = (k = k')"
| "tok_is k (PrimTok p) = False"

definition is_head_trivia :: "token \<Rightarrow> bool" where
  "is_head_trivia t = (tok_is Indent t \<or> tok_is Comment t \<or> tok_is NL t)"

text \<open>An optional token of one kind.\<close>

fun opt :: "tkind \<Rightarrow> token list \<Rightarrow> token list \<times> token list" where
  "opt k [] = ([], [])"
| "opt k (t # ts) = (if tok_is k t then ([t], ts) else ([], t # ts))"

definition take_tail :: "bool \<Rightarrow> token list \<Rightarrow> token list \<times> token list" where
  "take_tail comma_ok ts =
     (let (a, r1) = (if comma_ok then opt Comma ts else ([], ts));
          (b, r2) = opt Space r1;
          (c, r3) = opt Comment r2;
          (d, r4) = opt NL r3
      in (a @ b @ c @ d, r4))"

text \<open>The key of a map item with the colon and space after it; a list item has none.\<close>

fun parse_key ::
  "bool \<Rightarrow> token list \<Rightarrow> error + (primitive option \<times> token list \<times> token list)" where
  "parse_key False ts = Inr (None, [], ts)"
| "parse_key True (PrimTok k # Tok Colon s # ts) =
     Inr (Some k, Tok Colon s # fst (opt Space ts), snd (opt Space ts))"
| "parse_key True ts = Inl perr"

lemma opt_length: "length (snd (opt k ts)) \<le> length ts"
  by (cases ts) auto

lemma take_tail_length: "length (snd (take_tail b ts)) \<le> length ts"
proof -
  have "length (snd (opt NL (snd (opt Comment (snd (opt Space r)))))) \<le> length r" for r
    by (meson opt_length order_trans)
  moreover have "length (snd (opt Comma ts)) \<le> length ts"
    by (rule opt_length)
  ultimately show ?thesis
    unfolding take_tail_def
    by (auto simp: Let_def split: prod.splits if_splits)
       (metis snd_conv order_trans)+
qed

lemma parse_key_length: "parse_key m ts = Inr (k, inn, r) \<Longrightarrow> length r \<le> length ts"
proof (induction m ts rule: parse_key.induct)
  case (2 k s ts)
  then show ?case using opt_length [of Space ts] by auto
qed auto

definition has_comma :: "token list \<Rightarrow> bool" where
  "has_comma ts = (\<exists>t \<in> set ts. tok_is Comma t)"

text \<open>
  Modelled from the spec: the parser of values and items of \<open>dumbconf._parse\<close>, absent.
  A value is a primitive token or a bracketed container; a newline right after the opening
  bracket makes the container multiline. The items of a bracketed container run up to the
  closing bracket \<open>e\<close>; an item whose tail has no comma is the last one. The test on the
  lengths only serves termination: a value always consumes a token.
\<close>

function parse_value :: "token list \<Rightarrow> error + (node \<times> token list)"
  and parse_items ::
    "bool \<Rightarrow> tkind \<Rightarrow> token list \<Rightarrow> error + (item list \<times> token list \<times> token list)"
where
  "parse_value [] = Inl perr"
| "parse_value (PrimTok p # r) = Inr (Prim p, r)"
| "parse_value (Tok k s # r) =
     (if k = ListStart then
        (case parse_items False ListEnd (snd (opt NL r)) of
           Inl e \<Rightarrow> Inl e
         | Inr (items, closing, r') \<Rightarrow>
             Inr (List \<lparr>is_multiline = (fst (opt NL r) \<noteq> []), is_top_level_style = False,
                        c_head = Tok k s # fst (opt NL r), c_tail = closing\<rparr> items, r'))
      else if k = MapStart then
        (case parse_items True MapEnd (snd (opt NL r)) of
           Inl e \<Rightarrow> Inl e
         | Inr (items, closing, r') \<Rightarrow>
             Inr (Map \<lparr>is_multiline = (fst (opt NL r) \<noteq> []), is_top_level_style = False,
                       c_head = Tok k s # fst (opt NL r), c_tail = closing\<rparr> items, r'))
      else Inl perr)"
| "parse_items m e ts =
     (case dropWhile is_head_trivia ts of
        [] \<Rightarrow> Inl perr
      | t # r0 \<Rightarrow>
          if tok_is e t then Inr ([], takeWhile is_head_trivia ts @ [t], r0)
          else
            (case parse_key m (t # r0) of
               Inl err \<Rightarrow> Inl err
             | Inr (k, inn, r1) \<Rightarrow>
                 (case parse_value r1 of
                    Inl err \<Rightarrow> Inl err
                  | Inr (v, r2) \<Rightarrow>
                      if has_comma (fst (take_tail True r2)) then
                        (if length (snd (take_tail True r2)) < length ts then
                           (case parse_items m e (snd (take_tail True r2)) of
                              Inl err \<Rightarrow> Inl err
                            | Inr (its, closing, r4) \<Rightarrow>
                                Inr (Item (takeWhile is_head_trivia ts) k inn v
                                       (fst (take_tail True r2)) # its, closing, r4))
                         else Inl perr)
                      else
                        (case dropWhile is_head_trivia (snd (take_tail True r2)) of
                           [] \<Rightarrow> Inl perr
                         | t2 # r5 \<Rightarrow>
                             if tok_is e t2 then
                               Inr ([Item (takeWhile is_head_trivia ts) k inn v
                                       (fst (take_tail True r2))],
                                    takeWhile is_head_trivia (snd (take_tail True r2)) @ [t2], r5)
                             else Inl perr))))"
  by pat_completeness auto

termination
  apply (relation "measure (\<lambda>x. case x of
           Inl ts \<Rightarrow> 2 * length ts
         | Inr (m, e, ts) \<Rightarrow> 2 * length ts + 1)")
  apply simp
  subgoal for k s r
    using opt_length [of NL r] by simp
  subgoal for k s r
    using opt_length [of NL r] by simp
  subgoal for m e ts t r0 x k y inn r1
    using parse_key_length [of m "t # r0" k inn r1] length_dropWhile_le [of is_head_trivia ts]
    by simp
  subgoal by simp
  done

declare parse_items.simps [simp del]

text \<open>
  Modelled from the spec: the parser of the top-level form of \<open>dumbconf._parse\<close>, absent.
  The entries of a braceless top-level map: \<open>key\<close>, colon, space, value, end of line, up to
  the first thing that is not an entry. Trivia before that point is not consumed.
\<close>

fun starts_entry :: "token list \<Rightarrow> bool" where
  "starts_entry (PrimTok k # Tok Colon s # ts) = True"
| "starts_entry ts = False"

function parse_top_items :: "token list \<Rightarrow> error + (item list \<times> token list)" where
  "parse_top_items ts =
     (if starts_entry (dropWhile is_head_trivia ts) then
        (case parse_key True (dropWhile is_head_trivia ts) of
           Inl err \<Rightarrow> Inl err
         | Inr (k, inn, r1) \<Rightarrow>
             (case parse_value r1 of
                Inl err \<Rightarrow> Inl err
              | Inr (v, r2) \<Rightarrow>
                  if length (snd (take_tail False r2)) < length ts then
                    (case parse_top_items (snd (take_tail False r2)) of
                       Inl err \<Rightarrow> Inl err
                     | Inr (its, r4) \<Rightarrow>
                         Inr (Item (takeWhile is_head_trivia ts) k inn v
                                (fst (take_tail False r2)) # its, r4))
                  else Inl perr))
      else Inr ([], ts))"
  by pat_completeness auto

termination
  by (relation "measure length") auto

declare parse_top_items.simps [simp del]

definition is_doc_trivia :: "token \<Rightarrow> bool" where
  "is_doc_trivia t = (is_head_trivia t \<or> tok_is Space t)"

text \<open>
  Modelled from the spec: \<open>parse_from_tokens\<close> of \<open>dumbconf._parse\<close>, absent.
  The document: leading trivia, the root value (a braceless map when the text opens with
  \<open>key:\<close>), trailing trivia and the end-of-input token. The result is the \<open>Doc\<close>, an item
  without key.
\<close>

definition parse_from_tokens :: "token list \<Rightarrow> error + item" where
  "parse_from_tokens ts =
     (let h = takeWhile is_head_trivia ts; r = dropWhile is_head_trivia ts in
      case (if starts_entry r then
              (case parse_top_items r of
                 Inl err \<Rightarrow> Inl err
               | Inr (its, r') \<Rightarrow>
                   Inr (Map \<lparr>is_multiline = True, is_top_level_style = True,
                             c_head = [], c_tail = []\<rparr> its, r'))
            else parse_value r) of
        Inl err \<Rightarrow> Inl err
      | Inr (v, r') \<Rightarrow>
          (case dropWhile is_doc_trivia r' of
             [t] \<Rightarrow>
               if tok_is EOF t then Inr (Item h None [] v (takeWhile is_doc_trivia r' @ [t]))
               else Inl perr
           | _ \<Rightarrow> Inl perr))"

definition srcs :: "token list \<Rightarrow> string" where
  "srcs ts = concat (map src ts)"

text \<open>
  Modelled from the spec: \<open>unparse\<close> of \<open>dumbconf._parse\<close>, absent. Un-parsing gives the
  stored sources, in document order.
\<close>

primrec unparse :: "node \<Rightarrow> string"
  and unparse_item :: "item \<Rightarrow> string"
where
  "unparse (Prim p) = p_src p"
| "unparse (List ci its) = srcs (c_head ci) @ concat (map unparse_item its) @ srcs (c_tail ci)"
| "unparse (Map ci its) = srcs (c_head ci) @ concat (map unparse_item its) @ srcs (c_tail ci)"
| "unparse_item (Item h k inn v t) =
     srcs h @ (case k of None \<Rightarrow> [] | Some p \<Rightarrow> p_src p) @ srcs inn @ unparse v @ srcs t"

text \<open>\<open>_to_ast\<close>: the tokens of the value, then the end-of-input token, parsed; the root value.\<close>

definition to_ast :: "codec \<Rightarrow> pyval \<Rightarrow> Settings \<Rightarrow> bool \<Rightarrow> bool \<Rightarrow> error + node" where
  "to_ast c v settings as_key top_level_map =
     (case to_tokens c v settings as_key top_level_map of
        Inl e \<Rightarrow> Inl e
      | Inr tokens \<Rightarrow>
          (case parse_from_tokens (tokens @ [Tok EOF []]) of
             Inl e \<Rightarrow> Inl e
           | Inr doc \<Rightarrow> Inr (val doc)))"

section \<open>Native-value projection\<close>

text \<open>
  Inserting into the \<open>OrderedDict\<close> under construction: an equal key keeps its place and
  takes the new value.
\<close>

fun od_insert :: "(pyval \<times> pyval) list \<Rightarrow> pyprim \<Rightarrow> pyval \<Rightarrow> (pyval \<times> pyval) list" where
  "od_insert [] k v = [(PPrim k, v)]"
| "od_insert ((k', v') # d) k v =
     (if py_eq k k' then (k', v) # d else (k', v') # od_insert d k v)"

text \<open>
  \<open>_python_value\<close>. A key is a primitive node and yields its \<open>val\<close>; an item without key in
  a map reaches the last branch (\<open>Unknown ast\<close>).
\<close>

fun list_values :: "(error + pyval) list \<Rightarrow> pyval list \<Rightarrow> error + pyval list" where
  "list_values [] acc = Inr acc"
| "list_values (Inl e # rs) acc = Inl e"
| "list_values (Inr v # rs) acc = list_values rs (acc @ [v])"

fun dict_values ::
  "(primitive option \<times> (error + pyval)) list \<Rightarrow> (pyval \<times> pyval) list
     \<Rightarrow> error + (pyval \<times> pyval) list" where
  "dict_values [] acc = Inr acc"
| "dict_values ((None, r) # rs) acc = Inl (Raise AssertionError ''Unknown ast: {!r}'')"
| "dict_values ((Some k, Inl e) # rs) acc = Inl e"
| "dict_values ((Some k, Inr v) # rs) acc = dict_values rs (od_insert acc (p_val k) v)"

primrec python_value :: "node \<Rightarrow> error + pyval"
  and item_value :: "item \<Rightarrow> primitive option \<times> (error + pyval)"
where
  "python_value (Prim p) = Inr (PPrim (p_val p))"
| "python_value (List ci its) =
     (case list_values (map (\<lambda>it. snd (item_value it)) its) [] of
        Inl e \<Rightarrow> Inl e
      | Inr vs \<Rightarrow> Inr (PList vs))"
| "python_value (Map ci its) =
     (case dict_values (map item_value its) [] of
        Inl e \<Rightarrow> Inl e
      | Inr d \<Rightarrow> Inr (PDict d))"
| "item_value (Item h k inn v t) = (k, python_value v)"

section \<open>Python sequences\<close>

text \<open>
  Indexing a tuple or list: an \<open>int\<close> (a \<open>bool\<close> is one) counted from the end when negative,
  \<open>IndexError\<close> out of range, \<open>TypeError\<close> for any other index.
\<close>

fun index_of :: "pyval \<Rightarrow> error + int" where
  "index_of (PPrim (PInt i)) = Inr i"
| "index_of (PPrim (PBool b)) = Inr (if b then 1 else 0)"
| "index_of v = Inl (Raise TypeError ''indices must be integers or slices'')"

definition norm_index :: "nat \<Rightarrow> int \<Rightarrow> error + nat" where
  "norm_index n i =
     (if 0 \<le> i \<and> i < int n then Inr (nat i)
      else if - int n \<le> i \<and> i < 0 then Inr (nat (int n + i))
      else Inl (Raise IndexError ''index out of range''))"

definition getitem_int :: "'a list \<Rightarrow> int \<Rightarrow> error + 'a" where
  "getitem_int xs i = (case norm_index (length xs) i of Inl e \<Rightarrow> Inl e | Inr j \<Rightarrow> Inr (xs ! j))"

definition setitem_int :: "'a list \<Rightarrow> int \<Rightarrow> 'a \<Rightarrow> error + 'a list" where
  "setitem_int xs i x =
     (case norm_index (length xs) i of Inl e \<Rightarrow> Inl e | Inr j \<Rightarrow> Inr (xs[j := x]))"

definition delitem_int :: "'a list \<Rightarrow> int \<Rightarrow> error + 'a list" where
  "delitem_int xs i =
     (case norm_index (length xs) i of
        Inl e \<Rightarrow> Inl e
      | Inr j \<Rightarrow> Inr (take j xs @ drop (Suc j) xs))"

definition getitem :: "'a list \<Rightarrow> pyval \<Rightarrow> error + 'a" where
  "getitem xs k = (case index_of k of Inl e \<Rightarrow> Inl e | Inr i \<Rightarrow> getitem_int xs i)"

definition setitem :: "'a list \<Rightarrow> pyval \<Rightarrow> 'a \<Rightarrow> error + 'a list" where
  "setitem xs k x = (case index_of k of Inl e \<Rightarrow> Inl e | Inr i \<Rightarrow> setitem_int xs i x)"

text \<open>\<open>s.endswith('\n')\<close>\<close>

definition endswith_nl :: "string \<Rightarrow> bool" where
  "endswith_nl s = (s \<noteq> [] \<and> last s = CHR 0x0A)"

section \<open>Structural edit algebra\<close>

text \<open>The fields read off \<open>obj.val\<close>; a primitive has none of them.\<close>

fun items :: "node \<Rightarrow> item list" where
  "items (List ci its) = its"
| "items (Map ci its) = its"
| "items (Prim p) = []"

fun info :: "node \<Rightarrow> cinfo" where
  "info (List ci its) = ci"
| "info (Map ci its) = ci"
| "info (Prim p) = \<lparr>is_multiline = False, is_top_level_style = False, c_head = [], c_tail = []\<rparr>"

fun is_Map :: "node \<Rightarrow> bool" where
  "is_Map (Map ci its) = True"
| "is_Map n = False"

text \<open>\<open>node._replace(items=...)\<close> and the \<open>_replace\<close> of one field of an item.\<close>

fun replace_items :: "node \<Rightarrow> item list \<Rightarrow> node" where
  "replace_items (List ci its) new = List ci new"
| "replace_items (Map ci its) new = Map ci new"
| "replace_items (Prim p) new = Prim p"

definition item_replace_val :: "item \<Rightarrow> node \<Rightarrow> item" where
  "item_replace_val it v = Item (head it) (key it) (inner it) v (tail it)"

definition item_replace_tail :: "item \<Rightarrow> token list \<Rightarrow> item" where
  "item_replace_tail it t = Item (head it) (key it) (inner it) (val it) t"

definition item_replace_head :: "item \<Rightarrow> token list \<Rightarrow> item" where
  "item_replace_head it h = Item h (key it) (inner it) (val it) (tail it)"

definition item_replace_key :: "item \<Rightarrow> primitive \<Rightarrow> item" where
  "item_replace_key it k = Item (head it) (Some k) (inner it) (val it) (tail it)"

text \<open>
  The scan of \<open>_key_index\<close> over \<open>enumerate(val.items)\<close>, \<open>i\<close> being the position reached.
  An item of a map without key has no \<open>key.val\<close>.
\<close>

fun key_scan :: "item list \<Rightarrow> nat \<Rightarrow> pyval \<Rightarrow> error + nat" where
  "key_scan [] i k = Inl (Raise AssertionError ''TODO: KeyError(key)'')"
| "key_scan (it # its) i k =
     (case key it of
        None \<Rightarrow> Inl (Raise AttributeError ''val'')
      | Some p \<Rightarrow> if py_eq (p_val p) k then Inr i else key_scan its (Suc i) k)"

fun key_index :: "node \<Rightarrow> pyval \<Rightarrow> error + pyval" where
  "key_index (Map ci its) k =
     (case key_scan its 0 k of Inl e \<Rightarrow> Inl e | Inr i \<Rightarrow> Inr (PPrim (PInt (int i))))"
| "key_index (List ci its) k = Inr k"
| "key_index (Prim p) k = Inl (Raise AssertionError ''{!r}: not indexable'')"

fun get :: "item \<Rightarrow> pyval list \<Rightarrow> error + item" where
  "get obj [] = Inr obj"
| "get obj (k # rest) =
     (case key_index (val obj) k of
        Inl e \<Rightarrow> Inl e
      | Inr i \<Rightarrow>
          (case getitem (items (val obj)) i of
             Inl e \<Rightarrow> Inl e
           | Inr target \<Rightarrow> if rest = [] then Inr target else get target rest))"

text \<open>\<open>_modify_items\<close>; \<open>chain[0]\<close> of an empty chain is out of range.\<close>

fun modify_items ::
  "(item \<Rightarrow> pyval \<Rightarrow> error + item list) \<Rightarrow> item \<Rightarrow> pyval list \<Rightarrow> error + item" where
  "modify_items items_cb obj [] = Inl (Raise IndexError ''tuple index out of range'')"
| "modify_items items_cb obj (k # rest) =
     (case key_index (val obj) k of
        Inl e \<Rightarrow> Inl e
      | Inr i \<Rightarrow>
          (case (if rest = [] then items_cb obj i
                 else (case getitem (items (val obj)) i of
                         Inl e \<Rightarrow> Inl e
                       | Inr child \<Rightarrow>
                           (case modify_items items_cb child rest of
                              Inl e \<Rightarrow> Inl e
                            | Inr child' \<Rightarrow> setitem (items (val obj)) i child'))) of
             Inl e \<Rightarrow> Inl e
           | Inr new_items \<Rightarrow>
               Inr (item_replace_val obj (replace_items (val obj) new_items))))"

text \<open>\<open>_replace_val\<close>, with the default arguments of \<open>_to_ast\<close>.\<close>

definition replace_val :: "codec \<Rightarrow> item \<Rightarrow> pyval \<Rightarrow> error + item" where
  "replace_val c obj new_value =
     (case to_ast c new_value DEFAULT False False of
        Inl e \<Rightarrow> Inl e
      | Inr n \<Rightarrow> Inr (item_replace_val obj n))"

definition set_cb :: "codec \<Rightarrow> item \<Rightarrow> pyval \<Rightarrow> pyval \<Rightarrow> error + item list" where
  "set_cb c obj i v =
     (case getitem (items (val obj)) i of
        Inl e \<Rightarrow> Inl e
      | Inr old \<Rightarrow>
          (case replace_val c old v of
             Inl e \<Rightarrow> Inl e
           | Inr new \<Rightarrow> setitem (items (val obj)) i new))"

definition set_val :: "codec \<Rightarrow> item \<Rightarrow> pyval list \<Rightarrow> pyval \<Rightarrow> error + item" where
  "set_val c obj chain v =
     (if chain = [] then replace_val c obj v
      else modify_items (\<lambda>ob i. set_cb c ob i v) obj chain)"

text \<open>\<open>orig_item.tail[-1].src.endswith('\n')\<close>; an empty tail has no last token.\<close>

definition tail_ends_nl :: "item \<Rightarrow> error + bool" where
  "tail_ends_nl it =
     (case tail it of
        [] \<Rightarrow> Inl (Raise IndexError ''tuple index out of range'')
      | t # ts \<Rightarrow> Inr (endswith_nl (src (last (t # ts)))))"

text \<open>The two guards of \<open>_delete_cb\<close> that look at the removed item, evaluated left to right.\<close>

definition fix_before :: "bool \<Rightarrow> int \<Rightarrow> item \<Rightarrow> error + bool" where
  "fix_before ml i orig =
     (if ml \<and> i - 1 \<ge> 0 \<and> head orig = [] then tail_ends_nl orig else Inr False)"

definition fix_after :: "bool \<Rightarrow> int \<Rightarrow> nat \<Rightarrow> item \<Rightarrow> error + bool" where
  "fix_after ml i n orig =
     (if ml \<and> i + 1 < int n \<and> head orig \<noteq> [] then
        (case tail_ends_nl orig of Inl e \<Rightarrow> Inl e | Inr b \<Rightarrow> Inr (\<not> b))
      else Inr False)"

definition delete_cb :: "item \<Rightarrow> pyval \<Rightarrow> error + item list" where
  "delete_cb obj k =
     (case index_of k of
        Inl e \<Rightarrow> Inl e
      | Inr i \<Rightarrow>
     (case getitem_int (items (val obj)) i of
        Inl e \<Rightarrow> Inl e
      | Inr orig_item \<Rightarrow>
     (case delitem_int (items (val obj)) i of
        Inl e \<Rightarrow> Inl e
      | Inr new_items \<Rightarrow>
          if is_top_level_style (info (val obj)) \<and> new_items = [] then
            Inl (Raise TypeError
              (''Deleting the last element of a top level map is not allowed as '' @
               ''it would result in an invalid document when written out''))
          else if \<not> is_multiline (info (val obj)) \<and> int (length (items (val obj))) = i + 1 then
            (case getitem_int new_items (- 1) of
               Inl e \<Rightarrow> Inl e
             | Inr l \<Rightarrow> setitem_int new_items (- 1) (item_replace_tail l []))
          else
            (case fix_before (is_multiline (info (val obj))) i orig_item of
               Inl e \<Rightarrow> Inl e
             | Inr True \<Rightarrow>
                 (case getitem_int new_items (i - 1) of
                    Inl e \<Rightarrow> Inl e
                  | Inr p \<Rightarrow>
                      setitem_int new_items (i - 1) (item_replace_tail p (tail orig_item)))
             | Inr False \<Rightarrow>
                 (case fix_after (is_multiline (info (val obj))) i
                         (length (items (val obj))) orig_item of
                    Inl e \<Rightarrow> Inl e
                  | Inr True \<Rightarrow>
                      (case getitem_int new_items i of
                         Inl e \<Rightarrow> Inl e
                       | Inr f \<Rightarrow>
                           setitem_int new_items i (item_replace_head f (head orig_item)))
                  | Inr False \<Rightarrow> Inr new_items)))))"

definition delete :: "item \<Rightarrow> pyval list \<Rightarrow> error + item" where
  "delete obj chain = modify_items delete_cb obj chain"

definition set_key_cb :: "codec \<Rightarrow> item \<Rightarrow> pyval \<Rightarrow> pyval \<Rightarrow> error + item list" where
  "set_key_cb c obj i new_value =
     (if \<not> is_Map (val obj) then
        Inl (Raise TypeError ''Can only replace Map keys, not {}'')
      else
        (case to_ast c new_value DEFAULT False False of
           Inl e \<Rightarrow> Inl e
         | Inr (Prim p) \<Rightarrow>
             (case getitem (items (val obj)) i of
                Inl e \<Rightarrow> Inl e
              | Inr old \<Rightarrow> setitem (items (val obj)) i (item_replace_key old p))
         | Inr n \<Rightarrow> Inl (Raise TypeError ''Keys must be of type ({}) but got {}'')))"

definition set_key :: "codec \<Rightarrow> item \<Rightarrow> pyval list \<Rightarrow> pyval \<Rightarrow> error + item" where
  "set_key c obj chain new_value = modify_items (\<lambda>ob i. set_key_cb c ob i new_value) obj chain"

section \<open>Document proxy\<close>

text \<open>
  The proxy is the root cell and a chain. A method returns the exception it raised, if any,
  and the root cell afterwards: the assignment to \<open>self.root\<close> happens only when the
  operation returned.
\<close>

definition store :: "item \<Rightarrow> error + item \<Rightarrow> error option \<times> item" where
  "store doc r = (case r of Inl e \<Rightarrow> (Some e, doc) | Inr new \<Rightarrow> (None, new))"

definition proxy_setitem ::
  "codec \<Rightarrow> item \<Rightarrow> pyval list \<Rightarrow> pyval \<Rightarrow> pyval \<Rightarrow> error option \<times> item" where
  "proxy_setitem c doc chain k v = store doc (set_val c doc (chain @ [k]) v)"

definition proxy_delitem :: "item \<Rightarrow> pyval list \<Rightarrow> pyval \<Rightarrow> error option \<times> item" where
  "proxy_delitem doc chain k = store doc (delete doc (chain @ [k]))"

definition replace_key :: "codec \<Rightarrow> item \<Rightarrow> pyval list \<Rightarrow> pyval \<Rightarrow> error option \<times> item" where
  "replace_key c doc chain v =
     (if chain = [] then (Some (Raise TypeError ''Index into a map to replace a key.''), doc)
      else store doc (set_key c doc chain v))"

definition replace_value :: "codec \<Rightarrow> item \<Rightarrow> pyval list \<Rightarrow> pyval \<Rightarrow> error option \<times> item" where
  "replace_value c doc chain v = store doc (set_val c doc chain v)"

definition proxy_python_value :: "item \<Rightarrow> pyval list \<Rightarrow> error + pyval" where
  "proxy_python_value doc chain =
     (case get doc chain of Inl e \<Rightarrow> Inl e | Inr it \<Rightarrow> python_value (val it))"

section \<open>One-shot encoding\<close>

definition dumps :: "codec \<Rightarrow> pyval \<Rightarrow> bool \<Rightarrow> bool \<Rightarrow> bool \<Rightarrow> bool \<Rightarrow> error + string" where
  "dumps c v indented_arg bare_keys_arg top_level_map inline_small_containers_arg =
     (case to_ast c v
             \<lparr>indent = (if indented_arg then 0 else - 1), bare_keys = bare_keys_arg,
              inline_small_containers = inline_small_containers_arg\<rparr>
             False top_level_map of
        Inl e \<Rightarrow> Inl e
      | Inr n \<Rightarrow> Inr (unparse n))"

section \<open>The container forms in the words of the spec\<close>

text \<open>
  The results of the item function in order, or the first exception among them.
\<close>

fun collect :: "(error + 'a) list \<Rightarrow> error + 'a list" where
  "collect [] = Inr []"
| "collect (Inl e # rs) = Inl e"
| "collect (Inr x # rs) = (case collect rs of Inl e \<Rightarrow> Inl e | Inr xs \<Rightarrow> Inr (x # xs))"

text \<open>
  Inline: \<open>start\<close>, the items separated by a comma and a space, \<open>end\<close>. Multiline at depth
  \<open>n\<close>: \<open>start\<close>, newline, each item behind \<open>4 * (n + 1)\<close> spaces and followed by a comma and
  a newline, then \<open>4 * n\<close> spaces when \<open>n\<close> is positive, \<open>end\<close>.
\<close>

fun comma_separated :: "token list list \<Rightarrow> token list" where
  "comma_separated [] = []"
| "comma_separated [ts] = ts"
| "comma_separated (ts # tss) = ts @ [Tok Comma '','', Tok Space '' ''] @ comma_separated tss"

definition inline_form :: "token \<Rightarrow> token \<Rightarrow> token list list \<Rightarrow> token list" where
  "inline_form start end tss = [start] @ comma_separated tss @ [end]"

definition multiline_form :: "token \<Rightarrow> token \<Rightarrow> int \<Rightarrow> token list list \<Rightarrow> token list" where
  "multiline_form start end n tss =
     [start, Tok NL nl_src]
     @ concat (map (\<lambda>ts. [Tok Indent (replicate (4 * nat (n + 1)) CHR '' '')] @ ts
                          @ [Tok Comma '','', Tok NL nl_src]) tss)
     @ (if n > 0 then [Tok Indent (replicate (4 * nat n) CHR '' '')] else [])
     @ [end]"

section \<open>Positions in the tree\<close>

text \<open>
  To say which items an edit leaves alone, an item is named by its position: the list of
  the indices that lead to it from the root. \<open>locate\<close> is the index that \<open>_get\<close> and
  \<open>_modify_items\<close> reach for one path segment (\<open>_key_index\<close>, then the indexing of
  \<open>items\<close>), \<open>resolve\<close> the position a path leads to, \<open>item_at\<close> the item at a position.
  Two positions diverge when neither leads through the other. \<open>update_at\<close> changes the item
  at a position and rebuilds its ancestors around it.
\<close>

definition locate :: "item \<Rightarrow> pyval \<Rightarrow> error + nat" where
  "locate obj k =
     (case key_index (val obj) k of
        Inl e \<Rightarrow> Inl e
      | Inr i \<Rightarrow>
          (case index_of i of
             Inl e \<Rightarrow> Inl e
           | Inr n \<Rightarrow> norm_index (length (items (val obj))) n))"

fun resolve :: "item \<Rightarrow> pyval list \<Rightarrow> error + nat list" where
  "resolve obj [] = Inr []"
| "resolve obj (k # rest) =
     (case locate obj k of
        Inl e \<Rightarrow> Inl e
      | Inr j \<Rightarrow>
          (case resolve (items (val obj) ! j) rest of
             Inl e \<Rightarrow> Inl e
           | Inr js \<Rightarrow> Inr (j # js)))"

fun item_at :: "item \<Rightarrow> nat list \<Rightarrow> item option" where
  "item_at obj [] = Some obj"
| "item_at obj (j # js) =
     (if j < length (items (val obj)) then item_at (items (val obj) ! j) js else None)"

fun diverges :: "nat list \<Rightarrow> nat list \<Rightarrow> bool" where
  "diverges (a # r) (b # s) = (a \<noteq> b \<or> diverges r s)"
| "diverges r s = False"

fun update_at :: "(item \<Rightarrow> item) \<Rightarrow> item \<Rightarrow> nat list \<Rightarrow> item" where
  "update_at g obj [] = g obj"
| "update_at g obj (j # js) =
     item_replace_val obj
       (replace_items (val obj)
          ((items (val obj))[j := update_at g (items (val obj) ! j) js]))"

text \<open>
  Two nodes are the same container when both are lists or both are maps, with the same
  opening and closing tokens, the same flags and the same number of items.
\<close>

definition same_container :: "node \<Rightarrow> node \<Rightarrow> bool" where
  "same_container n n' =
     (case (n, n') of
        (List ci its, List ci' its') \<Rightarrow> ci' = ci \<and> length its' = length its
      | (Map ci its, Map ci' its') \<Rightarrow> ci' = ci \<and> length its' = length its
      | _ \<Rightarrow> False)"

section \<open>Semantic equality of native values\<close>

text \<open>
  Projection yields lists for tuples and an ordered dict for a dict: a value and its
  projection are compared with the tuples read as lists. A value is \<open>plain\<close> when it is
  built from primitives, lists, tuples and dicts whose keys are primitives, pairwise
  unequal under Python's \<open>==\<close>.
\<close>

function as_lists :: "pyval \<Rightarrow> pyval" where
  "as_lists (PPrim p) = PPrim p"
| "as_lists (PList xs) = PList (map as_lists xs)"
| "as_lists (PTuple xs) = PList (map as_lists xs)"
| "as_lists (PDict d) = PDict (map (\<lambda>kv. (fst kv, as_lists (snd kv))) d)"
| "as_lists POther = POther"
  by pat_completeness auto

termination
  by (relation "measure size") (auto dest: size_pyval_entry size_pyval_elem simp: size_prod_simp)

fun is_prim :: "pyval \<Rightarrow> bool" where
  "is_prim (PPrim p) = True"
| "is_prim v = False"

fun keys_equal :: "pyval \<Rightarrow> pyval \<Rightarrow> bool" where
  "keys_equal (PPrim p) k = py_eq p k"
| "keys_equal v k = False"

fun distinct_keys :: "pyval list \<Rightarrow> bool" where
  "distinct_keys [] = True"
| "distinct_keys (k # ks) = ((\<forall>k' \<in> set ks. \<not> keys_equal k' k) \<and> distinct_keys ks)"

function plain :: "pyval \<Rightarrow> bool" where
  "plain (PPrim p) = True"
| "plain (PList xs) = (\<forall>x \<in> set xs. plain x)"
| "plain (PTuple xs) = (\<forall>x \<in> set xs. plain x)"
| "plain (PDict d) =
     ((\<forall>kv \<in> set d. is_prim (fst kv) \<and> plain (snd kv)) \<and> distinct_keys (map fst d))"
| "plain POther = False"
  by pat_completeness auto

termination
  by (relation "measure size") (auto dest: size_pyval_entry size_pyval_elem simp: size_prod_simp)


section \<open>Example documents\<close>

text \<open>
  The list \<open>[\<close>, newline, \<open>1, 2,\<close>, newline, \<open>]\<close>: a multiline list whose second item
  shares the line of the first.
\<close>

definition ex_items :: "item list" where
  "ex_items =
     [Item [Tok Indent ''    ''] None [] (Prim (Primitive IntK (PInt 1) ''1''))
        [Tok Comma '','', Tok Space '' ''],
      Item [] None [] (Prim (Primitive IntK (PInt 2) ''2'')) [Tok Comma '','', Tok NL nl_src]]"

definition ex_doc :: item where
  "ex_doc = Item [] None []
     (List \<lparr>is_multiline = True, is_top_level_style = False,
            c_head = [Tok ListStart ''['', Tok NL nl_src], c_tail = [Tok ListEnd '']'']\<rparr> ex_items)
     [Tok EOF []]"

text \<open>The braceless document \<open>a: 1\<close> with its newline.\<close>

definition ex_map_doc :: item where
  "ex_map_doc = Item [] None []
     (Map \<lparr>is_multiline = True, is_top_level_style = True, c_head = [], c_tail = []\<rparr>
        [Item [] (Some (Primitive BareWordKey (PStr ''a'') ''a''))
           [Tok Colon '':'', Tok Space '' '']
           (Prim (Primitive IntK (PInt 1) ''1'')) [Tok NL nl_src]])
     [Tok EOF []]"

text \<open>
  Modelled from the spec: the primitive codec is not among the sources. This one serves
  the scenarios of section 8 of the spec: integers in decimal, a bare word is a run of
  letters, digits and underscores, a string is put between double quotes; no scenario has
  a float.
\<close>

definition digit :: "nat \<Rightarrow> char" where
  "digit d = ''0123456789'' ! d"

fun show_nat :: "nat \<Rightarrow> string" where
  "show_nat n = (if n < 10 then [digit n] else show_nat (n div 10) @ [digit (n mod 10)])"

declare show_nat.simps [simp del]

definition show_int :: "int \<Rightarrow> string" where
  "show_int i = (if i < 0 then ''-'' @ show_nat (nat (- i)) else show_nat (nat i))"

definition bare_word :: "string \<Rightarrow> bool" where
  "bare_word s = (s \<noteq> [] \<and>
     (\<forall>ch \<in> set s. ch \<in> set ''abcdefghijklmnopqrstuvwxyzABCDEFGHIJKLMNOPQRSTUVWXYZ0123456789_''))"

definition scenario_codec :: codec where
  "scenario_codec =
     \<lparr>String_dump = (\<lambda>s. [CHR 0x22] @ s @ [CHR 0x22]),
      Bool_dump = (\<lambda>b. if b then ''true'' else ''false''),
      Null_dump = ''null'',
      Int_dump = show_int,
      Float_dump = (\<lambda>f. ''0.0''),
      BARE_WORD_FULL_MATCH = bare_word\<rparr>"

text \<open>The value \<open>{"x": [1, 2, 3]}\<close>.\<close>

definition scenario_value :: pyval where
  "scenario_value =
     PDict [(PPrim (PStr ''x''), PList [PPrim (PInt 1), PPrim (PInt 2), PPrim (PInt 3)])]"

text \<open>The document \<open>a: {b: 1, c: 2}\<close> with its newline.\<close>

definition ex_nested_doc :: item where
  "ex_nested_doc = Item [] None []
     (Map \<lparr>is_multiline = True, is_top_level_style = True, c_head = [], c_tail = []\<rparr>
        [Item [] (Some (Primitive BareWordKey (PStr ''a'') ''a''))
           [Tok Colon '':'', Tok Space '' '']
           (Map \<lparr>is_multiline = False, is_top_level_style = False,
                 c_head = [Tok MapStart ''{''], c_tail = [Tok MapEnd ''}'']\<rparr>
              [Item [] (Some (Primitive BareWordKey (PStr ''b'') ''b''))
                 [Tok Colon '':'', Tok Space '' '']
                 (Prim (Primitive IntK (PInt 1) ''1'')) [Tok Comma '','', Tok Space '' ''],
               Item [] (Some (Primitive BareWordKey (PStr ''c'') ''c''))
                 [Tok Colon '':'', Tok Space '' '']
                 (Prim (Primitive IntK (PInt 2) ''2'')) []])
           [Tok NL nl_src]])
     [Tok EOF []]"

text \<open>The document \<open>a: 1\<close> after its key is replaced by the string \<open>z\<close>.\<close>

definition ex_rekeyed_doc :: item where
  "ex_rekeyed_doc = Item [] None []
     (Map \<lparr>is_multiline = True, is_top_level_style = True, c_head = [], c_tail = []\<rparr>
        [Item [] (Some (Primitive String (PStr ''z'') (CHR 0x22 # ''z'' @ [CHR 0x22])))
           [Tok Colon '':'', Tok Space '' '']
           (Prim (Primitive IntK (PInt 1) ''1'')) [Tok NL nl_src]])
     [Tok EOF []]"

text \<open>A dict with a tuple as a value, and one with a tuple as a key.\<close>

definition tuple_value :: pyval where
  "tuple_value =
     PDict [(PPrim (PStr ''x''), PTuple [PPrim (PInt 1), PPrim (PInt 2)]),
            (PPrim (PInt 3), PPrim PNone)]"

definition tuple_key_value :: pyval where
  "tuple_key_value = PDict [(PTuple [PPrim (PInt 1), PPrim (PInt 2)], PPrim (PInt 3))]"

text \<open>The inline list \<open>[1, 2]\<close>.\<close>

definition ex_inline_doc :: item where
  "ex_inline_doc = Item [] None []
     (List \<lparr>is_multiline = False, is_top_level_style = False,
            c_head = [Tok ListStart ''[''], c_tail = [Tok ListEnd '']'']\<rparr>
        [Item [] None [] (Prim (Primitive IntK (PInt 1) ''1''))
           [Tok Comma '','', Tok Space '' ''],
         Item [] None [] (Prim (Primitive IntK (PInt 2) ''2'')) []])
     [Tok EOF []]"

section \<open>Python sequences: facts\<close>

lemma norm_index_nat: "i < n \<Longrightarrow> norm_index n (int i) = Inr i"
  by (simp add: norm_index_def)

lemma norm_index_neg: "- int n \<le> k \<Longrightarrow> k < 0 \<Longrightarrow> norm_index n k = Inr (nat (int n + k))"
  by (simp add: norm_index_def)

lemma norm_index_out:
  "k < - int n \<or> int n \<le> k \<Longrightarrow> norm_index n k = Inl (Raise IndexError ''index out of range'')"
  by (auto simp: norm_index_def)

lemma norm_index_bound: "norm_index n k = Inr j \<Longrightarrow> j < n"
  by (auto simp: norm_index_def split: if_splits)

lemma getitem_int_nat: "i < length xs \<Longrightarrow> getitem_int xs (int i) = Inr (xs ! i)"
  by (simp add: getitem_int_def norm_index_nat)

lemma setitem_int_nat: "i < length xs \<Longrightarrow> setitem_int xs (int i) x = Inr (xs[i := x])"
  by (simp add: setitem_int_def norm_index_nat)

lemma delitem_int_nat:
  "i < length xs \<Longrightarrow> delitem_int xs (int i) = Inr (take i xs @ drop (Suc i) xs)"
  by (simp add: delitem_int_def norm_index_nat)

section \<open>Deleting an item\<close>

lemma ex_doc_parsed:
  "parse_from_tokens
     [Tok ListStart ''['', Tok NL nl_src, Tok Indent ''    '',
      PrimTok (Primitive IntK (PInt 1) ''1''), Tok Comma '','', Tok Space '' '',
      PrimTok (Primitive IntK (PInt 2) ''2''), Tok Comma '','', Tok NL nl_src,
      Tok ListEnd '']'', Tok EOF []] = Inr ex_doc"
  by (simp add: parse_from_tokens_def parse_items.simps take_tail_def has_comma_def
        is_head_trivia_def is_doc_trivia_def ex_doc_def ex_items_def)

lemma modify_items_single:
  "modify_items cb obj [k] =
     (case key_index (val obj) k of
        Inl e \<Rightarrow> Inl e
      | Inr i \<Rightarrow>
          (case cb obj i of
             Inl e \<Rightarrow> Inl e
           | Inr new \<Rightarrow> Inr (item_replace_val obj (replace_items (val obj) new))))"
  by (simp split: sum.splits)

lemma delete_cb_index: "index_of k = index_of k' \<Longrightarrow> delete_cb obj k = delete_cb obj k'"
  by (simp add: delete_cb_def)

lemma delete_cb_rule3:
  assumes ml: "is_multiline (info (val obj))"
    and i: "Suc j < length (items (val obj))"
    and hd: "head (items (val obj) ! Suc j) = []"
    and tl: "tail (items (val obj) ! Suc j) \<noteq> []"
            "endswith_nl (src (last (tail (items (val obj) ! Suc j))))"
  shows "delete_cb obj (PPrim (PInt (int (Suc j)))) =
           Inr (take j (items (val obj))
                @ [item_replace_tail (items (val obj) ! j) (tail (items (val obj) ! Suc j))]
                @ drop (Suc (Suc j)) (items (val obj)))"
proof -
  let ?its = "items (val obj)"
  let ?new = "take (Suc j) ?its @ drop (Suc (Suc j)) ?its"
  have nl: "tail_ends_nl (?its ! Suc j) = Inr True"
    using tl by (cases "tail (?its ! Suc j)") (auto simp: tail_ends_nl_def)
  have fb: "fix_before True (int (Suc j)) (?its ! Suc j) = Inr True"
    using hd nl by (simp add: fix_before_def)
  have len: "j < length ?new" using i by simp
  have im: "int (Suc j) - 1 = int j" by simp
  have nth: "?new ! j = ?its ! j"
    using i by (simp add: nth_append)
  have tk: "take (Suc j) ?its = take j ?its @ [?its ! j]"
    using i by (simp add: take_Suc_conv_app_nth)
  have upd: "?new[j := x] = take j ?its @ [x] @ drop (Suc (Suc j)) ?its" for x
    using i by (simp add: tk list_update_append)
  have ne: "?new \<noteq> []" using i by (simp add: tk)
  have g: "getitem_int ?its (int (Suc j)) = Inr (?its ! Suc j)"
    using i by (rule getitem_int_nat)
  have d: "delitem_int ?its (int (Suc j)) = Inr ?new"
    using i by (rule delitem_int_nat)
  have g2: "getitem_int ?new (int j) = Inr (?its ! j)"
    using getitem_int_nat [OF len] nth by simp
  have s2: "setitem_int ?new (int j) x = Inr (take j ?its @ [x] @ drop (Suc (Suc j)) ?its)" for x
    using setitem_int_nat [OF len] upd by simp
  show ?thesis
    unfolding delete_cb_def
    apply (simp only: index_of.simps sum.case g d)
    apply (simp only: ne ml fb im g2 s2 simp_thms if_False if_True sum.case bool.case)
    done
qed

text \<open>
  Claim C9. Deleting the item at index \<open>i \<ge> 1\<close> of a multiline container, when the removed
  item has an empty head and a tail whose last token ends in a newline, gives the preceding
  item the removed item's tail: the tail the preceding item had is dropped, not extended.
  The index is the one \<open>_key_index\<close> found for the last segment of the path.
\<close>

theorem delete_replaces_preceding_tail:
  assumes loc: "key_index (val obj) k = Inr ki" "index_of ki = Inr (int i)"
    and ml: "is_multiline (info (val obj))"
    and i: "1 \<le> i" "i < length (items (val obj))"
    and hd: "head (items (val obj) ! i) = []"
    and tl: "tail (items (val obj) ! i) \<noteq> []"
            "endswith_nl (src (last (tail (items (val obj) ! i))))"
  shows "delete obj [k] =
           Inr (item_replace_val obj (replace_items (val obj)
                 (take (i - 1) (items (val obj))
                  @ [item_replace_tail (items (val obj) ! (i - 1)) (tail (items (val obj) ! i))]
                  @ drop (Suc i) (items (val obj)))))"
proof -
  obtain j where j: "i = Suc j" using i(1) by (cases i) auto
  have "index_of ki = index_of (PPrim (PInt (int i)))"
    using loc(2) by simp
  then have same: "delete_cb obj ki = delete_cb obj (PPrim (PInt (int i)))"
    by (rule delete_cb_index)
  have "delete_cb obj ki =
          Inr (take j (items (val obj))
               @ [item_replace_tail (items (val obj) ! j) (tail (items (val obj) ! Suc j))]
               @ drop (Suc (Suc j)) (items (val obj)))"
    unfolding same j
    using ml i(2) hd tl unfolding j by (rule delete_cb_rule3)
  then show ?thesis
    using loc(1) j by (simp add: delete_def modify_items_single del: modify_items.simps)
qed

theorem delete_replaces_preceding_tail_witness:
  "delete ex_doc [PPrim (PInt 1)] =
     Inr (Item [] None []
       (List \<lparr>is_multiline = True, is_top_level_style = False,
              c_head = [Tok ListStart ''['', Tok NL nl_src], c_tail = [Tok ListEnd '']'']\<rparr>
          [Item [Tok Indent ''    ''] None [] (Prim (Primitive IntK (PInt 1) ''1''))
             [Tok Comma '','', Tok NL nl_src]])
       [Tok EOF []])"
  using delete_replaces_preceding_tail [of ex_doc "PPrim (PInt 1)" "PPrim (PInt 1)" 1]
  by (simp add: ex_doc_def ex_items_def endswith_nl_def nl_src_def item_replace_val_def
        item_replace_tail_def)


lemma delete_cb_rule4:
  assumes ml: "is_multiline (info (val obj))"
    and i: "i < length (items (val obj))"
    and r1: "\<not> (is_top_level_style (info (val obj)) \<and> length (items (val obj)) = 1)"
    and r3: "\<not> (1 \<le> i \<and> head (items (val obj) ! i) = []
                \<and> endswith_nl (src (last (tail (items (val obj) ! i)))))"
    and tl: "tail (items (val obj) ! i) \<noteq> []"
  shows "delete_cb obj (PPrim (PInt (int i))) =
           Inr (if Suc i < length (items (val obj)) \<and> head (items (val obj) ! i) \<noteq> []
                   \<and> \<not> endswith_nl (src (last (tail (items (val obj) ! i))))
                then take i (items (val obj))
                     @ [item_replace_head (items (val obj) ! Suc i) (head (items (val obj) ! i))]
                     @ drop (Suc (Suc i)) (items (val obj))
                else take i (items (val obj)) @ drop (Suc i) (items (val obj)))"
proof -
  let ?its = "items (val obj)"
  let ?new = "take i ?its @ drop (Suc i) ?its"
  let ?b = "endswith_nl (src (last (tail (?its ! i))))"
  have nl: "tail_ends_nl (?its ! i) = Inr ?b"
    using tl by (cases "tail (?its ! i)") (auto simp: tail_ends_nl_def)
  have fb: "fix_before True (int i) (?its ! i) = Inr False"
    using r3 nl by (auto simp: fix_before_def)
  have fa: "fix_after True (int i) (length ?its) (?its ! i) =
              Inr (Suc i < length ?its \<and> head (?its ! i) \<noteq> [] \<and> \<not> ?b)"
    using nl by (auto simp: fix_after_def)
  have g: "getitem_int ?its (int i) = Inr (?its ! i)"
    using i by (rule getitem_int_nat)
  have d: "delitem_int ?its (int i) = Inr ?new"
    using i by (rule delitem_int_nat)
  have top: "\<not> (is_top_level_style (info (val obj)) \<and> ?new = [])"
  proof
    assume a: "is_top_level_style (info (val obj)) \<and> ?new = []"
    then have "length ?new = 0" by (simp only: list.size)
    then have "length ?its = 1" using i by (simp add: min_def split: if_splits)
    with a r1 show False by simp
  qed
  show ?thesis
  proof (cases "Suc i < length ?its \<and> head (?its ! i) \<noteq> [] \<and> \<not> ?b")
    case True
    then have len: "i < length ?new" by auto
    have nth: "?new ! i = ?its ! Suc i"
      using True i by (simp add: nth_append)
    have upd: "?new[i := x] = take i ?its @ [x] @ drop (Suc (Suc i)) ?its" for x
    proof -
      have "drop (Suc i) ?its = ?its ! Suc i # drop (Suc (Suc i)) ?its"
        using True by (simp add: Cons_nth_drop_Suc)
      then show ?thesis using i by (simp add: list_update_append)
    qed
    have g2: "getitem_int ?new (int i) = Inr (?its ! Suc i)"
      using getitem_int_nat [OF len] nth by simp
    have s2: "setitem_int ?new (int i) x = Inr (take i ?its @ [x] @ drop (Suc (Suc i)) ?its)" for x
      using setitem_int_nat [OF len] upd by simp
    have fa': "fix_after True (int i) (length ?its) (?its ! i) = Inr True"
      using fa True by simp
    show ?thesis
      unfolding delete_cb_def
      apply (simp only: index_of.simps sum.case g d)
      apply (simp only: top ml fb fa' g2 s2 True simp_thms if_False if_True sum.case bool.case)
      done
  next
    case False
    have fa': "fix_after True (int i) (length ?its) (?its ! i) = Inr False"
      using fa False by simp
    show ?thesis
      unfolding delete_cb_def
      apply (simp only: index_of.simps sum.case g d)
      apply (simp only: top ml fb fa' False simp_thms if_False if_True sum.case bool.case)
      done
  qed
qed

text \<open>
  Claim C4, as amended. Deleting the item at position \<open>i\<close> of a multiline container, the
  position being the index \<open>_key_index\<close> returns (the place of a map key, or a list index
  that is not negative), when rules 1 to 3 do not apply and the tail of the removed item
  is not empty: if an item follows, the removed item has a non-empty head and the tail of
  the removed item (not of the following one) does not end in a newline, the removed
  item's head is moved onto the following item; otherwise the item is removed and nothing
  else changes. What a negative list index does is left out.
\<close>

theorem delete_moves_head_to_following:
  assumes loc: "key_index (val obj) k = Inr ki" "index_of ki = Inr (int i)"
    and ml: "is_multiline (info (val obj))"
    and i: "i < length (items (val obj))"
    and r1: "\<not> (is_top_level_style (info (val obj)) \<and> length (items (val obj)) = 1)"
    and r3: "\<not> (1 \<le> i \<and> head (items (val obj) ! i) = []
                \<and> endswith_nl (src (last (tail (items (val obj) ! i)))))"
    and tl: "tail (items (val obj) ! i) \<noteq> []"
  shows "delete obj [k] =
           Inr (item_replace_val obj (replace_items (val obj)
             (if Suc i < length (items (val obj)) \<and> head (items (val obj) ! i) \<noteq> []
                   \<and> \<not> endswith_nl (src (last (tail (items (val obj) ! i))))
              then take i (items (val obj))
                   @ [item_replace_head (items (val obj) ! Suc i) (head (items (val obj) ! i))]
                   @ drop (Suc (Suc i)) (items (val obj))
              else take i (items (val obj)) @ drop (Suc i) (items (val obj)))))"
proof -
  have "index_of ki = index_of (PPrim (PInt (int i)))"
    using loc(2) by simp
  then have same: "delete_cb obj ki = delete_cb obj (PPrim (PInt (int i)))"
    by (rule delete_cb_index)
  show ?thesis
    using loc(1) delete_cb_rule4 [OF ml i r1 r3 tl]
    by (simp only: delete_def modify_items_single same sum.case)
qed

theorem delete_moves_head_to_following_witness:
  "delete ex_doc [PPrim (PInt 0)] =
     Inr (Item [] None []
       (List \<lparr>is_multiline = True, is_top_level_style = False,
              c_head = [Tok ListStart ''['', Tok NL nl_src], c_tail = [Tok ListEnd '']'']\<rparr>
          [Item [Tok Indent ''    ''] None [] (Prim (Primitive IntK (PInt 2) ''2''))
             [Tok Comma '','', Tok NL nl_src]])
       [Tok EOF []])"
  using delete_moves_head_to_following [of ex_doc "PPrim (PInt 0)" "PPrim (PInt 0)" 0]
  by (simp add: ex_doc_def ex_items_def endswith_nl_def nl_src_def item_replace_val_def
        item_replace_head_def)

text \<open>
  Claim C4 as stated fails on the example list: the first item is removed, the tail of the
  following item ends in a newline, so the claim expects no fixup; the code looks at the tail
  of the removed item and moves its head onto the following item.
\<close>

theorem delete_fixup_reads_removed_tail_counterexample:
  "is_multiline (info (val ex_doc))
   \<and> \<not> is_top_level_style (info (val ex_doc))
   \<and> head (items (val ex_doc) ! 0) \<noteq> []
   \<and> endswith_nl (src (last (tail (items (val ex_doc) ! 1))))
   \<and> delete ex_doc [PPrim (PInt 0)] \<noteq>
       Inr (item_replace_val ex_doc (replace_items (val ex_doc) (drop 1 (items (val ex_doc)))))"
  by (simp add: ex_doc_def ex_items_def endswith_nl_def nl_src_def item_replace_val_def
        item_replace_head_def delete_def delete_cb_def getitem_int_def setitem_int_def
        delitem_int_def norm_index_def fix_before_def fix_after_def tail_ends_nl_def)


lemma ex_map_doc_parsed:
  "parse_from_tokens
     [PrimTok (Primitive BareWordKey (PStr ''a'') ''a''), Tok Colon '':'', Tok Space '' '',
      PrimTok (Primitive IntK (PInt 1) ''1''), Tok NL nl_src, Tok EOF []] = Inr ex_map_doc"
  by (simp add: parse_from_tokens_def parse_top_items.simps take_tail_def
        is_head_trivia_def is_doc_trivia_def ex_map_doc_def)

text \<open>
  Claim C5. When the root of the document is a top-level-style map with a single entry,
  deleting that entry through the proxy raises the \<open>TypeError\<close> of \<open>_delete_cb\<close>
  (the spec's \<open>CannotDeleteLastTopLevelItem\<close>) and the root cell keeps the document it
  had.
\<close>

theorem delete_last_top_level_item_fails:
  assumes "val doc = Map ci [it]" "is_top_level_style ci" "key it = Some p"
    and "py_eq (p_val p) k"
  shows "proxy_delitem doc [] k =
           (Some (Raise TypeError
              (''Deleting the last element of a top level map is not allowed as '' @
               ''it would result in an invalid document when written out'')), doc)"
  using assms
  by (simp add: proxy_delitem_def store_def delete_def delete_cb_def getitem_int_def
        delitem_int_def norm_index_def)

theorem delete_last_top_level_item_fails_witness:
  "proxy_delitem ex_map_doc [] (PPrim (PStr ''a'')) =
     (Some (Raise TypeError
        (''Deleting the last element of a top level map is not allowed as '' @
         ''it would result in an invalid document when written out'')), ex_map_doc)"
  using delete_last_top_level_item_fails
    [of ex_map_doc "\<lparr>is_multiline = True, is_top_level_style = True, c_head = [], c_tail = []\<rparr>"
        "Item [] (Some (Primitive BareWordKey (PStr ''a'') ''a''))
           [Tok Colon '':'', Tok Space '' '']
           (Prim (Primitive IntK (PInt 1) ''1'')) [Tok NL nl_src]"
        "Primitive BareWordKey (PStr ''a'') ''a''" "PPrim (PStr ''a'')"]
  by (simp add: ex_map_doc_def)

section \<open>Locating a key\<close>

lemma key_scan_absent:
  "\<forall>it \<in> set its. \<exists>p. key it = Some p \<and> \<not> py_eq (p_val p) k \<Longrightarrow>
     key_scan its i k = Inl (Raise AssertionError ''TODO: KeyError(key)'')"
  by (induction its arbitrary: i) auto

text \<open>
  Claim C7. A key that no item of the map has, and a path segment applied to a primitive,
  both raise \<open>AssertionError\<close>: the exception class that \<open>_to_tokens\<close> and
  \<open>_python_value\<close> raise for an internal defect. The message of the first is
  \<open>TODO: KeyError(key)\<close>.
\<close>

theorem key_errors_are_assertion_errors:
  "key_index (val ex_map_doc) (PPrim (PStr ''b'')) =
     Inl (Raise AssertionError ''TODO: KeyError(key)'')
   \<and> key_index (Prim (Primitive IntK (PInt 1) ''1'')) (PPrim (PInt 0)) =
     Inl (Raise AssertionError ''{!r}: not indexable'')
   \<and> to_tokens c POther DEFAULT False False =
     Inl (Raise AssertionError ''Unexpected value {!r}'')
   \<and> dict_values [(None, Inr (PPrim PNone))] [] =
     Inl (Raise AssertionError ''Unknown ast: {!r}'')"
  by (simp add: ex_map_doc_def to_tokens.simps)


section \<open>Negative list indices\<close>

lemma item_replace_vals [simp]:
  "val (item_replace_tail it t) = val it"
  "val (item_replace_head it h) = val it"
  "val (item_replace_key it p) = val it"
  "val (item_replace_val it n) = n"
  by (simp_all add: item_replace_tail_def item_replace_head_def item_replace_key_def
        item_replace_val_def)

lemma setitem_same_val:
  assumes "getitem_int xs i = Inr x" "setitem_int xs i y = Inr ys" "val y = val x"
  shows "map val ys = map val xs"
proof -
  obtain j where j: "norm_index (length xs) i = Inr j"
    using assms(1) by (auto simp: getitem_int_def split: sum.splits)
  have "x = xs ! j" "ys = xs[j := y]"
    using assms(1,2) j by (auto simp: getitem_int_def setitem_int_def)
  moreover have "(map val xs)[j := val (xs ! j)] = map val xs"
    using norm_index_bound [OF j] by (metis list_update_id nth_map)
  ultimately show ?thesis
    using assms(3) by (simp add: map_update)
qed

lemma delete_cb_vals:
  assumes "delete_cb obj ki = Inr new" "index_of ki = Inr k"
    and "norm_index (length (items (val obj))) k = Inr j"
  shows "map val new = map val (take j (items (val obj)) @ drop (Suc j) (items (val obj)))"
proof -
  let ?del = "take j (items (val obj)) @ drop (Suc j) (items (val obj))"
  have d: "delitem_int (items (val obj)) k = Inr ?del"
    using assms(3) by (simp add: delitem_int_def)
  have g: "getitem_int (items (val obj)) k = Inr (items (val obj) ! j)"
    using assms(3) by (simp add: getitem_int_def)
  show ?thesis
    using assms(1)
    unfolding delete_cb_def
    apply (simp only: assms(2) sum.case g d)
    apply (auto split: if_splits sum.splits bool.splits
             dest: setitem_same_val [where xs = ?del])
    done
qed

lemma get_single:
  "get obj [k] =
     (case key_index (val obj) k of
        Inl e \<Rightarrow> Inl e
      | Inr i \<Rightarrow> getitem (items (val obj)) i)"
  by (simp split: sum.splits)


text \<open>
  Negative indices in a list. For a list of length \<open>n\<close> and an integer \<open>k\<close> with
  \<open>-n \<le> k < 0\<close>, reading and setting at index \<open>k\<close> succeed (setting, when the new value
  synthesizes) and address the item at position \<open>n + k\<close>; a delete at \<open>k\<close> that returns has
  removed the item at position \<open>n + k\<close> and kept the values of the others in order. For an
  integer outside \<open>[-n, n)\<close> all three raise \<open>IndexError\<close>.
\<close>

theorem negative_list_index:
  assumes v: "val obj = List ci its"
  shows "(- int (length its) \<le> k \<and> k < 0 \<longrightarrow>
            get obj [PPrim (PInt k)] = Inr (its ! nat (int (length its) + k))
          \<and> (\<forall>nd. to_ast c x DEFAULT False False = Inr nd \<longrightarrow>
                set_val c obj [PPrim (PInt k)] x =
                  Inr (item_replace_val obj
                        (List ci (its[nat (int (length its) + k) :=
                           item_replace_val (its ! nat (int (length its) + k)) nd]))))
          \<and> (\<forall>obj'. delete obj [PPrim (PInt k)] = Inr obj' \<longrightarrow>
                map val (items (val obj')) =
                  map val (take (nat (int (length its) + k)) its
                           @ drop (Suc (nat (int (length its) + k))) its)))
       \<and> (k < - int (length its) \<or> int (length its) \<le> k \<longrightarrow>
            get obj [PPrim (PInt k)] = Inl (Raise IndexError ''index out of range'')
          \<and> set_val c obj [PPrim (PInt k)] x = Inl (Raise IndexError ''index out of range'')
          \<and> delete obj [PPrim (PInt k)] = Inl (Raise IndexError ''index out of range''))"
proof (intro conjI impI allI)
  assume k: "- int (length its) \<le> k \<and> k < 0"
  then have n: "norm_index (length its) k = Inr (nat (int (length its) + k))"
    by (simp add: norm_index_neg)
  show "get obj [PPrim (PInt k)] = Inr (its ! nat (int (length its) + k))"
    using v n by (simp add: getitem_def getitem_int_def)
  show "set_val c obj [PPrim (PInt k)] x =
          Inr (item_replace_val obj
                (List ci (its[nat (int (length its) + k) :=
                   item_replace_val (its ! nat (int (length its) + k)) nd])))"
    if "to_ast c x DEFAULT False False = Inr nd" for nd
    using v n that
    by (simp add: set_val_def set_cb_def replace_val_def getitem_def getitem_int_def
          setitem_def setitem_int_def)
  show "map val (items (val obj')) =
          map val (take (nat (int (length its) + k)) its
                   @ drop (Suc (nat (int (length its) + k))) its)"
    if d: "delete obj [PPrim (PInt k)] = Inr obj'" for obj'
  proof -
    obtain new where new: "delete_cb obj (PPrim (PInt k)) = Inr new"
      and obj': "obj' = item_replace_val obj (replace_items (val obj) new)"
      using d v by (auto simp: delete_def split: sum.splits)
    have "map val new = map val (take (nat (int (length its) + k)) (items (val obj))
                   @ drop (Suc (nat (int (length its) + k))) (items (val obj)))"
      using new n v by (intro delete_cb_vals [where ki = "PPrim (PInt k)" and k = k]) simp_all
    then show ?thesis using obj' v by simp
  qed
next
  assume k: "k < - int (length its) \<or> int (length its) \<le> k"
  then have n: "norm_index (length its) k = Inl (Raise IndexError ''index out of range'')"
    by (rule norm_index_out)
  show "get obj [PPrim (PInt k)] = Inl (Raise IndexError ''index out of range'')"
    using v n by (simp add: getitem_def getitem_int_def)
  show "set_val c obj [PPrim (PInt k)] x = Inl (Raise IndexError ''index out of range'')"
    using v n
    by (simp add: set_val_def set_cb_def getitem_def getitem_int_def)
  show "delete obj [PPrim (PInt k)] = Inl (Raise IndexError ''index out of range'')"
    using v n
    by (simp add: delete_def delete_cb_def getitem_int_def)
qed

lemma to_ast_nine:
  "to_ast scenario_codec (PPrim (PInt 9)) DEFAULT False False =
     Inr (Prim (Primitive IntK (PInt 9) ''9''))"
  by (simp add: to_ast_def to_tokens.simps parse_from_tokens_def is_head_trivia_def
        is_doc_trivia_def scenario_codec_def show_int_def show_nat.simps digit_def)

theorem negative_list_index_witness:
  "get ex_doc [PPrim (PInt (- 1))] = Inr (ex_items ! 1)
   \<and> set_val scenario_codec ex_doc [PPrim (PInt (- 1))] (PPrim (PInt 9)) =
       Inr (item_replace_val ex_doc
             (List (info (val ex_doc))
                (ex_items[1 := item_replace_val (ex_items ! 1)
                                 (Prim (Primitive IntK (PInt 9) ''9''))])))
   \<and> get ex_doc [PPrim (PInt 5)] = Inl (Raise IndexError ''index out of range'')
   \<and> set_val scenario_codec ex_doc [PPrim (PInt 5)] (PPrim (PInt 9)) =
       Inl (Raise IndexError ''index out of range'')
   \<and> delete ex_doc [PPrim (PInt 5)] = Inl (Raise IndexError ''index out of range'')"
  using negative_list_index [of ex_doc "info (val ex_doc)" ex_items "- 1" scenario_codec
          "PPrim (PInt 9)"]
        negative_list_index [of ex_doc "info (val ex_doc)" ex_items 5 scenario_codec
          "PPrim (PInt 9)"]
        to_ast_nine
  by (simp add: ex_doc_def ex_items_def)

lemma ex_inline_doc_parsed:
  "parse_from_tokens
     [Tok ListStart ''['', PrimTok (Primitive IntK (PInt 1) ''1''), Tok Comma '','',
      Tok Space '' '', PrimTok (Primitive IntK (PInt 2) ''2''), Tok ListEnd '']'',
      Tok EOF []] = Inr ex_inline_doc"
  by (simp add: parse_from_tokens_def parse_items.simps take_tail_def has_comma_def
        is_head_trivia_def is_doc_trivia_def ex_inline_doc_def)

text \<open>
  Claim C10. Reading at a negative index addresses the item counted from the end, but
  \<open>_delete_cb\<close> compares and indexes with the index as given. On the multiline example
  list, of length 2, deleting at index 0 returns and deleting at \<open>-2\<close>, the same item,
  raises \<open>IndexError\<close>: the guard \<open>i + 1 < len(items)\<close> holds and \<open>new_items[-2]\<close> is read
  in a list of length 1. On the inline list \<open>[1, 2]\<close>, deleting the last item at index 1
  strips the tail of the new last item, as the comment in the code says it must; deleting
  it at index \<open>-1\<close> leaves the comma and the space.
\<close>

theorem negative_delete_misses_fixups:
  "get ex_doc [PPrim (PInt (- 2))] = Inr (ex_items ! 0)
   \<and> delete ex_doc [PPrim (PInt 0)] \<noteq> Inl (Raise IndexError ''index out of range'')
   \<and> delete ex_doc [PPrim (PInt (- 2))] = Inl (Raise IndexError ''index out of range'')
   \<and> (case delete ex_inline_doc [PPrim (PInt 1)] of
         Inl e \<Rightarrow> Inl e | Inr d \<Rightarrow> Inr (unparse (val d))) = Inr ''[1]''
   \<and> (case delete ex_inline_doc [PPrim (PInt (- 1))] of
         Inl e \<Rightarrow> Inl e | Inr d \<Rightarrow> Inr (unparse (val d))) = Inr ''[1, ]''"
  by (simp add: ex_doc_def ex_items_def ex_inline_doc_def endswith_nl_def nl_src_def
        delete_def delete_cb_def getitem_def getitem_int_def setitem_int_def
        delitem_int_def norm_index_def fix_before_def fix_after_def tail_ends_nl_def
        item_replace_val_def item_replace_tail_def item_replace_head_def srcs_def)


section \<open>The scenario of the one-shot encoder\<close>

lemma scenario_tokens:
  "to_tokens c scenario_value
      \<lparr>indent = 0, bare_keys = True, inline_small_containers = True\<rparr> False True =
   Inr [PrimTok (if BARE_WORD_FULL_MATCH c ''x'' then Primitive BareWordKey (PStr ''x'') ''x''
                 else Primitive String (PStr ''x'') (String_dump c ''x'')),
        Tok Colon '':'', Tok Space '' '', Tok ListStart ''['', Tok NL nl_src,
        Tok Indent ''    '', PrimTok (Primitive IntK (PInt 1) (Int_dump c 1)),
        Tok Comma '','', Tok NL nl_src,
        Tok Indent ''    '', PrimTok (Primitive IntK (PInt 2) (Int_dump c 2)),
        Tok Comma '','', Tok NL nl_src,
        Tok Indent ''    '', PrimTok (Primitive IntK (PInt 3) (Int_dump c 3)),
        Tok Comma '','', Tok NL nl_src, Tok ListEnd '']'', Tok NL nl_src]"
  by (simp add: scenario_value_def to_tokens.simps map_item_tokens.simps container_def
        multiline_def indented_def spaces4_def)

lemma dumps_scenario_text:
  "dumps c scenario_value True True True True =
     Inr ((if BARE_WORD_FULL_MATCH c ''x'' then ''x'' else String_dump c ''x'')
          @ '': ['' @ nl_src
          @ ''    '' @ Int_dump c 1 @ '','' @ nl_src
          @ ''    '' @ Int_dump c 2 @ '','' @ nl_src
          @ ''    '' @ Int_dump c 3 @ '','' @ nl_src
          @ '']'' @ nl_src)"
  by (simp add: dumps_def to_ast_def scenario_tokens parse_from_tokens_def
        parse_top_items.simps parse_items.simps take_tail_def has_comma_def
        is_head_trivia_def is_doc_trivia_def srcs_def)

text \<open>
  Claim C1, as amended. With the default arguments, \<open>dumps\<close> of the value
  \<open>{"x": [1, 2, 3]}\<close> is the key, \<open>: [\<close>, a newline, then each element on a line of its own
  behind four spaces and followed by a comma, then \<open>]\<close> and a newline: at depth 0 a list
  of three elements is rendered multiline. This holds whatever the primitive codec writes
  for the key and the integers.
\<close>

theorem dumps_scenario_multiline:
  "dumps c scenario_value True True True True =
     Inr ((if BARE_WORD_FULL_MATCH c ''x'' then ''x'' else String_dump c ''x'')
          @ '': ['' @ nl_src
          @ ''    '' @ Int_dump c 1 @ '','' @ nl_src
          @ ''    '' @ Int_dump c 2 @ '','' @ nl_src
          @ ''    '' @ Int_dump c 3 @ '','' @ nl_src
          @ '']'' @ nl_src)"
  by (rule dumps_scenario_text)

theorem dumps_scenario_multiline_witness:
  "dumps scenario_codec scenario_value True True True True =
     Inr (''x: ['' @ [CHR 0x0A] @ ''    1,'' @ [CHR 0x0A] @ ''    2,'' @ [CHR 0x0A]
          @ ''    3,'' @ [CHR 0x0A] @ '']'' @ [CHR 0x0A])"
  using dumps_scenario_multiline [of scenario_codec]
  by (simp add: scenario_codec_def bare_word_def show_int_def show_nat.simps digit_def
        nl_src_def)

text \<open>Claim C1 as stated fails: the text is not the one-line form.\<close>

theorem dumps_scenario_inline_counterexample:
  "dumps scenario_codec
     (PDict [(PPrim (PStr ''x''), PList [PPrim (PInt 1), PPrim (PInt 2), PPrim (PInt 3)])])
     True True True True \<noteq> Inr (''x: [1, 2, 3]'' @ [CHR 0x0A])"
  using dumps_scenario_text [of scenario_codec]
  by (simp add: scenario_value_def scenario_codec_def bare_word_def show_int_def
        show_nat.simps digit_def nl_src_def)

section \<open>The container renderer\<close>

lemma spaces4_replicate: "spaces4 n = replicate (4 * nat n) CHR '' ''"
proof -
  have "concat (replicate m ''    '') = replicate (4 * m) CHR '' ''" for m
    by (induction m) (simp_all add: replicate_add eval_nat_numeral)
  then show ?thesis by (simp add: spaces4_def)
qed

lemma comma_separated_Cons:
  "comma_separated (ts # tss) =
     ts @ concat (map (\<lambda>t. Tok Comma '','' # Tok Space '' '' # t) tss)"
  by (induction tss arbitrary: ts) simp_all

lemma inline_loop_collect:
  "inline_loop f s xs ret =
     (case collect (map (\<lambda>x. f x s) xs) of
        Inl e \<Rightarrow> Inl e
      | Inr tss \<Rightarrow> Inr (ret @ concat (map (\<lambda>t. Tok Comma '','' # Tok Space '' '' # t) tss)))"
  by (induction xs arbitrary: ret) (auto split: sum.splits)

lemma inline_collect:
  "inline f start end xs s =
     (case collect (map (\<lambda>x. f x s) xs) of
        Inl e \<Rightarrow> Inl e
      | Inr tss \<Rightarrow> Inr (inline_form start end tss))"
proof (cases xs)
  case Nil
  then show ?thesis by (simp add: inline_def inline_form_def)
next
  case (Cons x xs')
  then show ?thesis
    by (auto simp: inline_def inline_form_def inline_loop_collect comma_separated_Cons
             simp del: comma_separated.simps split: sum.splits)
qed

lemma multiline_loop_collect:
  assumes "indent s \<ge> 0"
  shows "multiline_loop f s xs ret =
     (case collect (map (\<lambda>x. f x (s\<lparr>indent := indent s + 1\<rparr>)) xs) of
        Inl e \<Rightarrow> Inl e
      | Inr tss \<Rightarrow>
          Inr (ret @ concat (map (\<lambda>ts. [Tok Indent (replicate (4 * nat (indent s + 1)) CHR '' '')]
                                       @ ts @ [Tok Comma '','', Tok NL nl_src]) tss)))"
  using assms
  by (induction xs arbitrary: ret) (auto simp: indented_def spaces4_replicate split: sum.splits)

lemma multiline_collect:
  assumes "indent s \<ge> 0"
  shows "multiline f start end xs s =
     (case collect (map (\<lambda>x. f x (s\<lparr>indent := indent s + 1\<rparr>)) xs) of
        Inl e \<Rightarrow> Inl e
      | Inr tss \<Rightarrow> Inr (multiline_form start end (indent s) tss))"
  using assms
  by (auto simp: multiline_def multiline_form_def multiline_loop_collect spaces4_replicate
           split: sum.splits)

text \<open>
  Claim C6. \<open>_container\<close> renders inline exactly when \<open>settings.indent < 0\<close>, or there is no
  item, or \<open>inline_small_containers\<close> is set and there are fewer than two items, and the
  items are then rendered with the same settings; otherwise it renders multiline, the
  items rendered one level deeper. An exception of the item function is the result.
\<close>

theorem container_inline_or_multiline:
  "container f start end xs s =
     (if indent s < 0 \<or> xs = [] \<or> (inline_small_containers s \<and> length xs < 2) then
        (case collect (map (\<lambda>x. f x s) xs) of
           Inl e \<Rightarrow> Inl e
         | Inr tss \<Rightarrow> Inr (inline_form start end tss))
      else
        (case collect (map (\<lambda>x. f x (s\<lparr>indent := indent s + 1\<rparr>)) xs) of
           Inl e \<Rightarrow> Inl e
         | Inr tss \<Rightarrow> Inr (multiline_form start end (indent s) tss)))"
proof (cases "indent s < 0 \<or> xs = [] \<or> (inline_small_containers s \<and> length xs < 2)")
  case True
  then show ?thesis
    by (simp only: container_def inline_collect if_True)
next
  case False
  then have "indent s \<ge> 0" by simp
  then show ?thesis
    using False by (simp only: container_def multiline_collect if_False)
qed

theorem container_inline_or_multiline_witness:
  "container (\<lambda>x s. to_tokens scenario_codec x s False False)
      (Tok ListStart ''['') (Tok ListEnd '']'') [PPrim (PInt 1), PPrim (PInt 2)]
      \<lparr>indent = 1, bare_keys = True, inline_small_containers = True\<rparr> =
     Inr [Tok ListStart ''['', Tok NL nl_src,
          Tok Indent ''        '', PrimTok (Primitive IntK (PInt 1) ''1''),
          Tok Comma '','', Tok NL nl_src,
          Tok Indent ''        '', PrimTok (Primitive IntK (PInt 2) ''2''),
          Tok Comma '','', Tok NL nl_src,
          Tok Indent ''    '', Tok ListEnd '']'']
   \<and> container (\<lambda>x s. to_tokens scenario_codec x s False False)
      (Tok ListStart ''['') (Tok ListEnd '']'') [PPrim (PInt 1), PPrim (PInt 2)]
      \<lparr>indent = - 1, bare_keys = True, inline_small_containers = True\<rparr> =
     Inr [Tok ListStart ''['', PrimTok (Primitive IntK (PInt 1) ''1''),
          Tok Comma '','', Tok Space '' '', PrimTok (Primitive IntK (PInt 2) ''2''),
          Tok ListEnd '']'']"
  apply (subst container_inline_or_multiline)
  apply (subst container_inline_or_multiline)
  apply (simp add: to_tokens.simps inline_form_def multiline_form_def scenario_codec_def
        show_int_def show_nat.simps digit_def eval_nat_numeral)
  done


section \<open>Paths and positions\<close>

lemma getitem_locate:
  "key_index (val obj) k = Inr i \<Longrightarrow>
     getitem (items (val obj)) i =
       (case locate obj k of Inl e \<Rightarrow> Inl e | Inr j \<Rightarrow> Inr (items (val obj) ! j))"
  by (simp add: getitem_def getitem_int_def locate_def split: sum.splits)

lemma setitem_locate:
  "key_index (val obj) k = Inr i \<Longrightarrow>
     setitem (items (val obj)) i x =
       (case locate obj k of Inl e \<Rightarrow> Inl e | Inr j \<Rightarrow> Inr ((items (val obj))[j := x]))"
  by (simp add: setitem_def setitem_int_def locate_def split: sum.splits)

lemma locate_key_index:
  "locate obj k = Inr j \<Longrightarrow> \<exists>i. key_index (val obj) k = Inr i"
  by (auto simp: locate_def split: sum.splits)

lemma locate_bound: "locate obj k = Inr j \<Longrightarrow> j < length (items (val obj))"
  by (auto simp: locate_def split: sum.splits dest: norm_index_bound)

lemma get_Cons:
  "get obj (k # rest) =
     (case locate obj k of
        Inl e \<Rightarrow> Inl e
      | Inr j \<Rightarrow> get (items (val obj) ! j) rest)"
proof (cases "key_index (val obj) k")
  case (Inl e)
  then show ?thesis by (simp add: locate_def)
next
  case (Inr i)
  then show ?thesis
    by (cases rest) (auto simp: getitem_locate split: sum.splits)
qed

lemma get_resolve:
  "get obj q = (case resolve obj q of Inl e \<Rightarrow> Inl e | Inr js \<Rightarrow> Inr (the (item_at obj js)))"
proof (induction q arbitrary: obj)
  case Nil
  then show ?case by simp
next
  case (Cons k rest)
  show ?case
    by (simp only: get_Cons resolve.simps Cons.IH)
       (auto split: sum.splits dest: locate_bound)
qed

lemma resolve_item_at:
  "resolve obj q = Inr js \<Longrightarrow> \<exists>it. item_at obj js = Some it"
proof (induction q arbitrary: obj js)
  case Nil
  then show ?case by simp
next
  case (Cons k rest)
  then show ?case
    by (auto split: sum.splits dest: locate_bound)
qed

lemma modify_items_Cons:
  "rest \<noteq> [] \<Longrightarrow>
   modify_items cb obj (k # rest) =
     (case locate obj k of
        Inl e \<Rightarrow> Inl e
      | Inr j \<Rightarrow>
          (case modify_items cb (items (val obj) ! j) rest of
             Inl e \<Rightarrow> Inl e
           | Inr ch \<Rightarrow>
               Inr (item_replace_val obj
                     (replace_items (val obj) ((items (val obj))[j := ch])))))"
proof (cases "key_index (val obj) k")
  case (Inl e)
  then show ?thesis by (simp add: locate_def)
next
  case (Inr i)
  assume "rest \<noteq> []"
  then show ?thesis
    using Inr
    by (auto simp: getitem_locate setitem_locate split: sum.splits)
qed


lemma resolve_length: "resolve obj q = Inr js \<Longrightarrow> length js = length q"
  by (induction q arbitrary: obj js) (auto split: sum.splits)

lemma item_replace_fields [simp]:
  "head (item_replace_val it n) = head it" "tail (item_replace_val it n) = tail it"
  "key (item_replace_val it n) = key it" "inner (item_replace_val it n) = inner it"
  "head (item_replace_key it p) = head it" "tail (item_replace_key it p) = tail it"
  "key (item_replace_key it p) = Some p" "inner (item_replace_key it p) = inner it"
  by (simp_all add: item_replace_val_def item_replace_key_def)

lemma items_replace_items:
  "length new = length (items n) \<Longrightarrow> length (items (replace_items n new)) = length (items n)"
  "items n \<noteq> [] \<Longrightarrow> items (replace_items n new) = new"
  by (cases n; simp)+

lemma modify_items_update:
  assumes cb: "\<And>ob i j. Q ob \<Longrightarrow>
        (case index_of i of
           Inl e \<Rightarrow> Inl e
         | Inr n \<Rightarrow> norm_index (length (items (val ob))) n) = Inr j \<Longrightarrow>
        cb ob i = Inr ((items (val ob))[j := g (items (val ob) ! j)])"
    and "chain \<noteq> []" "resolve obj chain = Inr ps" "Q (the (item_at obj (butlast ps)))"
  shows "modify_items cb obj chain = Inr (update_at g obj ps)"
  using assms(2-)
proof (induction chain arbitrary: obj ps)
  case Nil
  then show ?case by simp
next
  case (Cons k rest)
  from Cons.prems(2) obtain j js where j: "locate obj k = Inr j"
    and js: "resolve (items (val obj) ! j) rest = Inr js" and ps: "ps = j # js"
    by (auto split: sum.splits)
  have jl: "j < length (items (val obj))" using j by (rule locate_bound)
  show ?case
  proof (cases "rest = []")
    case True
    then have js0: "js = []" using js by simp
    obtain i where i: "key_index (val obj) k = Inr i"
      using locate_key_index [OF j] by blast
    have "(case index_of i of Inl e \<Rightarrow> Inl e
            | Inr n \<Rightarrow> norm_index (length (items (val obj))) n) = Inr j"
      using j i by (simp add: locate_def)
    moreover have "Q obj" using Cons.prems(3) ps js0 by simp
    ultimately have "cb obj i = Inr ((items (val obj))[j := g (items (val obj) ! j)])"
      by (rule cb [rotated])
    then show ?thesis
      using True i ps js0 by (simp add: modify_items_single del: modify_items.simps)
  next
    case False
    then have jsne: "js \<noteq> []" using resolve_length [OF js] by auto
    have "Q (the (item_at (items (val obj) ! j) (butlast js)))"
      using Cons.prems(3) ps jsne jl by simp
    then have "modify_items cb (items (val obj) ! j) rest =
                 Inr (update_at g (items (val obj) ! j) js)"
      using Cons.IH [OF False js] by simp
    then show ?thesis
      using False j ps by (simp add: modify_items_Cons del: modify_items.simps)
  qed
qed

lemma item_at_update_same:
  "item_at obj ps = Some it \<Longrightarrow> item_at (update_at g obj ps) ps = Some (g it)"
proof (induction ps arbitrary: obj)
  case Nil
  then show ?case by simp
next
  case (Cons j js)
  then have jl: "j < length (items (val obj))" by (simp split: if_splits)
  then have ne: "items (val obj) \<noteq> []" by auto
  show ?case
    using Cons jl by (simp add: items_replace_items(2) [OF ne])
qed

lemma item_at_update_diverges:
  "diverges ps qs \<Longrightarrow> item_at (update_at g obj ps) qs = item_at obj qs"
proof (induction ps qs arbitrary: obj rule: diverges.induct)
  case (1 a r b s)
  show ?case
  proof (cases "items (val obj) = []")
    case True
    then show ?thesis by (cases "val obj") simp_all
  next
    case False
    show ?thesis
    proof (cases "a = b")
      case True
      then have "diverges r s" using "1.prems" by simp
      then show ?thesis
        using True "1.IH" by (simp add: items_replace_items(2) [OF False])
    next
      case ne: False
      then show ?thesis
        by (simp add: items_replace_items(2) [OF False])
    qed
  qed
qed simp_all

lemma same_container_replace_items:
  "items n \<noteq> [] \<Longrightarrow> length new = length (items n) \<Longrightarrow>
     same_container n (replace_items n new)"
  by (cases n) (simp_all add: same_container_def)

lemma item_at_update_ancestor:
  "r \<noteq> [] \<Longrightarrow> item_at obj qs = Some a \<Longrightarrow> item_at obj (qs @ r) = Some it \<Longrightarrow>
     \<exists>a'. item_at (update_at g obj (qs @ r)) qs = Some a'
        \<and> head a' = head a \<and> tail a' = tail a \<and> key a' = key a \<and> inner a' = inner a
        \<and> same_container (val a) (val a')"
proof (induction qs arbitrary: obj)
  case Nil
  then obtain j js where r: "r = j # js" by (cases r) auto
  then have jl: "j < length (items (val obj))"
    using Nil(3) by (simp split: if_splits)
  then have ne: "items (val obj) \<noteq> []" by auto
  show ?case
    using Nil(2) r same_container_replace_items [OF ne] by simp
next
  case (Cons j js)
  then have jl: "j < length (items (val obj))" by (simp split: if_splits)
  then have ne: "items (val obj) \<noteq> []" by auto
  show ?case
    using Cons jl by (simp add: items_replace_items(2) [OF ne])
qed

lemma key_scan_keys:
  "map key xs = map key ys \<Longrightarrow> key_scan xs i k = key_scan ys i k"
proof (induction xs arbitrary: ys i)
  case Nil
  then show ?case by simp
next
  case (Cons x xs)
  then obtain y ys' where "ys = y # ys'" by (cases ys) auto
  then show ?case using Cons by (auto split: option.splits)
qed

lemma key_update_at:
  "(\<And>x. key (g x) = key x) \<Longrightarrow> key (update_at g obj ps) = key obj"
  by (cases ps) simp_all

lemma locate_update_at:
  assumes g: "\<And>x. key (g x) = key x"
  shows "locate (update_at g obj (a # r)) k = locate obj k"
proof -
  let ?new = "(items (val obj))[a := update_at g (items (val obj) ! a) r]"
  have keys: "map key ?new = map key (items (val obj))"
    by (simp add: map_update key_update_at [of g, OF g] list_update_same_conv
          flip: nth_map)
       (metis length_map list_update_beyond list_update_id not_le nth_map)
  have "key_index (replace_items (val obj) ?new) k = key_index (val obj) k"
  proof (cases "val obj")
    case (Map ci its)
    with keys have "key_scan (its[a := update_at g (its ! a) r]) 0 k = key_scan its 0 k"
      by (intro key_scan_keys) simp
    then show ?thesis using Map by simp
  qed simp_all
  moreover have "length (items (replace_items (val obj) ?new)) = length (items (val obj))"
    by (simp add: items_replace_items(1))
  ultimately show ?thesis by (simp add: locate_def cong: sum.case_cong)
qed

lemma get_update_diverges:
  assumes g: "\<And>x. key (g x) = key x"
  shows "resolve obj q = Inr qs \<Longrightarrow> diverges ps qs \<Longrightarrow>
           get (update_at g obj ps) q = get obj q"
proof (induction q arbitrary: obj ps qs)
  case Nil
  then show ?case by (cases ps) simp_all
next
  case (Cons k rest)
  from Cons.prems(1) obtain j js where j: "locate obj k = Inr j"
    and js: "resolve (items (val obj) ! j) rest = Inr js" and qs: "qs = j # js"
    by (auto split: sum.splits)
  from Cons.prems(2) qs obtain a r where ps: "ps = a # r"
    by (cases ps) auto
  have jl: "j < length (items (val obj))" using j by (rule locate_bound)
  then have ne: "items (val obj) \<noteq> []" by auto
  have loc: "locate (update_at g obj ps) k = Inr j"
    unfolding ps using locate_update_at [of g obj a r k, OF g] j by simp
  show ?case
  proof (cases "a = j")
    case True
    then have "diverges r js" using Cons.prems(2) ps qs by simp
    then have "get (update_at g (items (val obj) ! j) r) rest = get (items (val obj) ! j) rest"
      using Cons.IH [OF js] by simp
    then show ?thesis
      using loc j jl True
      by (simp add: get_Cons ps items_replace_items(2) [OF ne] del: get.simps)
  next
    case False
    then show ?thesis
      using loc j jl
      by (simp add: get_Cons ps items_replace_items(2) [OF ne] del: get.simps)
  qed
qed


lemma get_append:
  "get obj (pre @ q) = (case get obj pre of Inl e \<Rightarrow> Inl e | Inr x \<Rightarrow> get x q)"
proof (induction pre arbitrary: obj)
  case Nil
  then show ?case by simp
next
  case (Cons k rest)
  show ?case
    by (simp only: append_Cons get_Cons Cons.IH) (simp split: sum.splits)
qed

lemma resolve_append:
  "resolve obj (pre @ q) =
     (case resolve obj pre of
        Inl e \<Rightarrow> Inl e
      | Inr js \<Rightarrow>
          (case resolve (the (item_at obj js)) q of
             Inl e \<Rightarrow> Inl e
           | Inr ks \<Rightarrow> Inr (js @ ks)))"
proof (induction pre arbitrary: obj)
  case Nil
  then show ?case by (simp split: sum.splits)
next
  case (Cons k rest)
  show ?case
    by (simp add: Cons.IH split: sum.splits) (auto dest: locate_bound)
qed

lemma modify_items_error:
  "get obj pre = Inr parent \<Longrightarrow> key_index (val parent) k = Inr i \<Longrightarrow>
     cb parent i = Inl e \<Longrightarrow> modify_items cb obj (pre @ [k]) = Inl e"
proof (induction pre arbitrary: obj)
  case Nil
  then show ?case by (simp add: modify_items_single del: modify_items.simps)
next
  case (Cons k' rest)
  from Cons.prems(1) obtain j where j: "locate obj k' = Inr j"
    and g: "get (items (val obj) ! j) rest = Inr parent"
    by (auto simp: get_Cons simp del: get.simps split: sum.splits)
  have "modify_items cb (items (val obj) ! j) (rest @ [k]) = Inl e"
    using Cons.IH [OF g Cons.prems(2,3)] .
  then show ?case
    using j by (simp add: modify_items_Cons del: modify_items.simps)
qed

lemma set_cb_update:
  assumes "to_ast c v DEFAULT False False = Inr n"
    and "(case index_of i of
            Inl e \<Rightarrow> Inl e
          | Inr m \<Rightarrow> norm_index (length (items (val ob))) m) = Inr j"
  shows "set_cb c ob i v =
           Inr ((items (val ob))[j := item_replace_val (items (val ob) ! j) n])"
  using assms
  by (auto simp: set_cb_def replace_val_def getitem_def getitem_int_def setitem_def
        setitem_int_def split: sum.splits)

lemma set_key_cb_update:
  assumes "to_ast c v DEFAULT False False = Inr (Prim p)" "is_Map (val ob)"
    and "(case index_of i of
            Inl e \<Rightarrow> Inl e
          | Inr m \<Rightarrow> norm_index (length (items (val ob))) m) = Inr j"
  shows "set_key_cb c ob i v =
           Inr ((items (val ob))[j := item_replace_key (items (val ob) ! j) p])"
  using assms
  by (auto simp: set_key_cb_def getitem_def getitem_int_def setitem_def
        setitem_int_def split: sum.splits)

lemma get_resolved:
  assumes "get doc chain = Inr it"
  obtains ps where "resolve doc chain = Inr ps" "item_at doc ps = Some it"
proof -
  from assms obtain ps where ps: "resolve doc chain = Inr ps"
    by (auto simp: get_resolve split: sum.splits)
  moreover from resolve_item_at [OF ps] assms ps have "item_at doc ps = Some it"
    by (auto simp: get_resolve)
  ultimately show ?thesis using that by blast
qed

lemma set_val_update:
  assumes "chain \<noteq> []" "resolve doc chain = Inr ps" "to_ast c v DEFAULT False False = Inr n"
  shows "set_val c doc chain v = Inr (update_at (\<lambda>x. item_replace_val x n) doc ps)"
proof -
  have "modify_items (\<lambda>ob i. set_cb c ob i v) doc chain =
          Inr (update_at (\<lambda>x. item_replace_val x n) doc ps)"
    by (rule modify_items_update [where Q = "\<lambda>ob. True"])
       (simp_all add: set_cb_update [OF assms(3)] assms(1,2))
  then show ?thesis using assms(1) by (simp add: set_val_def)
qed

lemma ex_nested_doc_parsed:
  "parse_from_tokens
     [PrimTok (Primitive BareWordKey (PStr ''a'') ''a''), Tok Colon '':'', Tok Space '' '',
      Tok MapStart ''{'',
      PrimTok (Primitive BareWordKey (PStr ''b'') ''b''), Tok Colon '':'', Tok Space '' '',
      PrimTok (Primitive IntK (PInt 1) ''1''), Tok Comma '','', Tok Space '' '',
      PrimTok (Primitive BareWordKey (PStr ''c'') ''c''), Tok Colon '':'', Tok Space '' '',
      PrimTok (Primitive IntK (PInt 2) ''2''), Tok MapEnd ''}'', Tok NL nl_src,
      Tok EOF []] = Inr ex_nested_doc"
  by (simp add: parse_from_tokens_def parse_top_items.simps parse_items.simps take_tail_def
        has_comma_def is_head_trivia_def is_doc_trivia_def ex_nested_doc_def)

section \<open>Setting a value\<close>

lemma set_val_error:
  assumes "chain \<noteq> []" "get doc chain = Inr it" "to_ast c v DEFAULT False False = Inl e"
  shows "set_val c doc chain v = Inl e"
proof -
  have chain: "chain = butlast chain @ [last chain]" using assms(1) by simp
  from assms(2) obtain parent where par: "get doc (butlast chain) = Inr parent"
    and g: "get parent [last chain] = Inr it"
    by (subst (asm) chain) (auto simp: get_append simp del: get.simps split: sum.splits)
  from g obtain i where i: "key_index (val parent) (last chain) = Inr i"
    and gi: "getitem (items (val parent)) i = Inr it"
    by (auto split: sum.splits)
  have "set_cb c parent i v = Inl e"
    by (simp add: set_cb_def gi replace_val_def assms(3))
  then have "modify_items (\<lambda>ob i. set_cb c ob i v) doc (butlast chain @ [last chain]) = Inl e"
    by (rule modify_items_error [where cb = "\<lambda>ob i. set_cb c ob i v", OF par i])
  then show ?thesis
    using assms(1) chain by (simp add: set_val_def)
qed

text \<open>
  Claim C3. Setting a value at a non-empty path that resolves to an item returns a
  document in which the item at the path's position has the new node as \<open>val\<close> and its
  \<open>head\<close>, \<open>key\<close>, \<open>inner\<close> and \<open>tail\<close> as before; every item at a position that diverges
  from the path's position is the item that was there; every ancestor of the edited item
  keeps its \<open>head\<close>, \<open>tail\<close>, \<open>key\<close> and \<open>inner\<close>, and its value stays a container of the
  same kind, with the same opening and closing tokens, the same flags and the same number
  of items; and reading or projecting at any path that resolves to a diverging position
  gives what it gave before. So nothing but the \<open>val\<close> of the terminal item differs
  between the two documents. When the value does not synthesize, the exception is raised
  and the document is the one before. Paths that lead through the edited item, or that
  the edited item's path leads through, are not outside the edit: their projection
  contains the new value.
\<close>

theorem set_value_frame:
  assumes "chain \<noteq> []" "get doc chain = Inr it"
  shows "(\<forall>e. to_ast c v DEFAULT False False = Inl e \<longrightarrow>
            replace_value c doc chain v = (Some e, doc))
       \<and> (\<forall>n. to_ast c v DEFAULT False False = Inr n \<longrightarrow>
            (\<exists>doc' ps.
               set_val c doc chain v = Inr doc' \<and> replace_value c doc chain v = (None, doc')
             \<and> resolve doc chain = Inr ps \<and> item_at doc ps = Some it
             \<and> item_at doc' ps = Some (Item (head it) (key it) (inner it) n (tail it))
             \<and> (\<forall>qs. diverges ps qs \<longrightarrow> item_at doc' qs = item_at doc qs)
             \<and> (\<forall>qs r a. ps = qs @ r \<and> r \<noteq> [] \<and> item_at doc qs = Some a \<longrightarrow>
                   (\<exists>a'. item_at doc' qs = Some a' \<and> head a' = head a \<and> tail a' = tail a
                        \<and> key a' = key a \<and> inner a' = inner a
                        \<and> same_container (val a) (val a')))
             \<and> (\<forall>q qs. resolve doc q = Inr qs \<and> diverges ps qs \<longrightarrow>
                   get doc' q = get doc q
                 \<and> proxy_python_value doc' q = proxy_python_value doc q)))"
proof (intro conjI allI impI)
  fix e assume "to_ast c v DEFAULT False False = Inl e"
  then have "set_val c doc chain v = Inl e"
    using assms by (intro set_val_error)
  then show "replace_value c doc chain v = (Some e, doc)"
    by (simp add: replace_value_def store_def)
next
  fix n assume n: "to_ast c v DEFAULT False False = Inr n"
  from assms(2) obtain ps where ps: "resolve doc chain = Inr ps" "item_at doc ps = Some it"
    by (rule get_resolved)
  let ?g = "\<lambda>x. item_replace_val x n"
  let ?doc' = "update_at ?g doc ps"
  have s: "set_val c doc chain v = Inr ?doc'"
    using assms(1) ps(1) n by (rule set_val_update)
  have "replace_value c doc chain v = (None, ?doc')"
    by (simp add: replace_value_def store_def s)
  moreover have "item_at ?doc' ps = Some (Item (head it) (key it) (inner it) n (tail it))"
    using item_at_update_same [OF ps(2), of ?g] by (simp add: item_replace_val_def)
  moreover have "\<forall>qs. diverges ps qs \<longrightarrow> item_at ?doc' qs = item_at doc qs"
    by (simp add: item_at_update_diverges)
  moreover have "\<forall>qs r a. ps = qs @ r \<and> r \<noteq> [] \<and> item_at doc qs = Some a \<longrightarrow>
               (\<exists>a'. item_at ?doc' qs = Some a' \<and> head a' = head a \<and> tail a' = tail a
                    \<and> key a' = key a \<and> inner a' = inner a
                    \<and> same_container (val a) (val a'))"
  proof (intro allI impI)
    fix qs r a
    assume h: "ps = qs @ r \<and> r \<noteq> [] \<and> item_at doc qs = Some a"
    then have "item_at doc (qs @ r) = Some it" using ps(2) by simp
    with h show "\<exists>a'. item_at ?doc' qs = Some a' \<and> head a' = head a \<and> tail a' = tail a
                    \<and> key a' = key a \<and> inner a' = inner a
                    \<and> same_container (val a) (val a')"
      using item_at_update_ancestor [of r doc qs a it ?g] by simp
  qed
  moreover have "\<forall>q qs. resolve doc q = Inr qs \<and> diverges ps qs \<longrightarrow>
               get ?doc' q = get doc q
             \<and> proxy_python_value ?doc' q = proxy_python_value doc q"
    using get_update_diverges [of ?g doc _ _ ps]
    by (simp add: proxy_python_value_def)
  ultimately show "\<exists>doc' ps.
               set_val c doc chain v = Inr doc' \<and> replace_value c doc chain v = (None, doc')
             \<and> resolve doc chain = Inr ps \<and> item_at doc ps = Some it
             \<and> item_at doc' ps = Some (Item (head it) (key it) (inner it) n (tail it))
             \<and> (\<forall>qs. diverges ps qs \<longrightarrow> item_at doc' qs = item_at doc qs)
             \<and> (\<forall>qs r a. ps = qs @ r \<and> r \<noteq> [] \<and> item_at doc qs = Some a \<longrightarrow>
                   (\<exists>a'. item_at doc' qs = Some a' \<and> head a' = head a \<and> tail a' = tail a
                        \<and> key a' = key a \<and> inner a' = inner a
                        \<and> same_container (val a) (val a')))
             \<and> (\<forall>q qs. resolve doc q = Inr qs \<and> diverges ps qs \<longrightarrow>
                   get doc' q = get doc q
                 \<and> proxy_python_value doc' q = proxy_python_value doc q)"
    using s ps by blast
qed

lemma to_ast_tuple_key:
  "to_ast scenario_codec tuple_key_value DEFAULT False False = Inl (Raise ParseError [])"
  by (simp add: tuple_key_value_def to_ast_def to_tokens.simps map_item_tokens.simps
        container_def inline_def DEFAULT_def parse_from_tokens_def parse_items.simps
        is_head_trivia_def is_doc_trivia_def perr_def)

lemma set_scenario_text:
  "(case set_val scenario_codec ex_nested_doc [PPrim (PStr ''a''), PPrim (PStr ''b'')]
           (PPrim (PInt 9)) of
      Inl e \<Rightarrow> Inl e
    | Inr doc' \<Rightarrow> Inr (unparse (val doc'))) = Inr (''a: {b: 9, c: 2}'' @ [CHR 0x0A])"
  by (simp add: set_val_def set_cb_def replace_val_def to_ast_nine ex_nested_doc_def
        getitem_def getitem_int_def setitem_def setitem_int_def norm_index_def
        item_replace_val_def srcs_def nl_src_def)

theorem set_value_frame_witness:
  "replace_value scenario_codec ex_nested_doc [PPrim (PStr ''a''), PPrim (PStr ''b'')]
     tuple_key_value = (Some (Raise ParseError []), ex_nested_doc)
   \<and> (\<exists>doc' ps.
     set_val scenario_codec ex_nested_doc [PPrim (PStr ''a''), PPrim (PStr ''b'')]
       (PPrim (PInt 9)) = Inr doc'
   \<and> replace_value scenario_codec ex_nested_doc [PPrim (PStr ''a''), PPrim (PStr ''b'')]
       (PPrim (PInt 9)) = (None, doc')
   \<and> resolve ex_nested_doc [PPrim (PStr ''a''), PPrim (PStr ''b'')] = Inr ps
   \<and> item_at ex_nested_doc ps =
       Some (Item [] (Some (Primitive BareWordKey (PStr ''b'') ''b''))
               [Tok Colon '':'', Tok Space '' '']
               (Prim (Primitive IntK (PInt 1) ''1'')) [Tok Comma '','', Tok Space '' ''])
   \<and> item_at doc' ps =
       Some (Item [] (Some (Primitive BareWordKey (PStr ''b'') ''b''))
               [Tok Colon '':'', Tok Space '' '']
               (Prim (Primitive IntK (PInt 9) ''9'')) [Tok Comma '','', Tok Space '' ''])
   \<and> (\<forall>qs. diverges ps qs \<longrightarrow> item_at doc' qs = item_at ex_nested_doc qs)
   \<and> (\<forall>qs r a. ps = qs @ r \<and> r \<noteq> [] \<and> item_at ex_nested_doc qs = Some a \<longrightarrow>
         (\<exists>a'. item_at doc' qs = Some a' \<and> head a' = head a \<and> tail a' = tail a
              \<and> key a' = key a \<and> inner a' = inner a
                        \<and> same_container (val a) (val a')))
   \<and> (\<forall>q qs. resolve ex_nested_doc q = Inr qs \<and> diverges ps qs \<longrightarrow>
         get doc' q = get ex_nested_doc q
       \<and> proxy_python_value doc' q = proxy_python_value ex_nested_doc q))
   \<and> (case set_val scenario_codec ex_nested_doc [PPrim (PStr ''a''), PPrim (PStr ''b'')]
           (PPrim (PInt 9)) of
        Inl e \<Rightarrow> Inl e
      | Inr doc' \<Rightarrow> Inr (unparse (val doc'))) = Inr (''a: {b: 9, c: 2}'' @ [CHR 0x0A])"
proof -
  let ?it = "Item [] (Some (Primitive BareWordKey (PStr ''b'') ''b''))
               [Tok Colon '':'', Tok Space '' '']
               (Prim (Primitive IntK (PInt 1) ''1'')) [Tok Comma '','', Tok Space '' '']"
  have g: "get ex_nested_doc [PPrim (PStr ''a''), PPrim (PStr ''b'')] = Inr ?it"
    by (simp add: ex_nested_doc_def getitem_def getitem_int_def norm_index_def)
  have ne: "[PPrim (PStr ''a''), PPrim (PStr ''b'')] \<noteq> []" by simp
  show ?thesis
    using set_value_frame [OF ne g, of scenario_codec tuple_key_value]
          set_value_frame [OF ne g, of scenario_codec "PPrim (PInt 9)"]
          set_scenario_text
    by (simp only: to_ast_tuple_key to_ast_nine sum.inject sum.distinct simp_thms item.sel)
qed

section \<open>Replacing a key\<close>

lemma set_key_result:
  assumes ne: "chain \<noteq> []" and it: "get doc chain = Inr it"
    and par: "get doc (butlast chain) = Inr parent"
    and ps: "resolve doc chain = Inr ps"
  shows "set_key c doc chain v =
     (if \<not> is_Map (val parent) then Inl (Raise TypeError ''Can only replace Map keys, not {}'')
      else
        (case to_ast c v DEFAULT False False of
           Inl e \<Rightarrow> Inl e
         | Inr (Prim p) \<Rightarrow> Inr (update_at (\<lambda>x. item_replace_key x p) doc ps)
         | Inr n \<Rightarrow> Inl (Raise TypeError ''Keys must be of type ({}) but got {}'')))"
proof -
  have chain: "chain = butlast chain @ [last chain]" using ne by simp
  have "get parent [last chain] = Inr it"
    using it par by (subst (asm) chain) (simp add: get_append del: get.simps)
  then obtain i where i: "key_index (val parent) (last chain) = Inr i"
    by (auto split: sum.splits)
  have err: "set_key c doc chain v = Inl e" if "set_key_cb c parent i v = Inl e" for e
    unfolding set_key_def
    by (subst chain)
       (rule modify_items_error [where cb = "\<lambda>ob i. set_key_cb c ob i v", OF par i that])
  have rb: "resolve doc (butlast chain) = Inr (butlast ps)"
    using ps by (subst (asm) chain) (auto simp: resolve_append split: sum.splits)
  have parent: "the (item_at doc (butlast ps)) = parent"
    using par rb by (simp add: get_resolve)
  show ?thesis
  proof (cases "is_Map (val parent)")
    case False
    then show ?thesis by (simp add: err set_key_cb_def)
  next
    case True
    show ?thesis
    proof (cases "to_ast c v DEFAULT False False")
      case (Inl e)
      then show ?thesis using True by (simp add: err set_key_cb_def)
    next
      case (Inr n)
      show ?thesis
      proof (cases n)
        case (Prim p)
        have "modify_items (\<lambda>ob i. set_key_cb c ob i v) doc chain =
                Inr (update_at (\<lambda>x. item_replace_key x p) doc ps)"
          by (rule modify_items_update [where Q = "\<lambda>ob. is_Map (val ob)"])
             (simp_all add: set_key_cb_update Inr [unfolded Prim] ne ps parent True)
        then show ?thesis using True Inr Prim by (simp add: set_key_def)
      next
        case (List ci its)
        then show ?thesis using True Inr by (simp add: err set_key_cb_def)
      next
        case (Map ci its)
        then show ?thesis using True Inr by (simp add: err set_key_cb_def)
      qed
    qed
  qed
qed

text \<open>
  Claim C8. For a non-empty path that resolves to an item, \<open>replace_key\<close> raises the
  \<open>TypeError\<close> of a non-map (the spec's \<open>NotAMap\<close>) when the container holding the item is
  a list, raises the \<open>TypeError\<close> of a non-primitive key (\<open>InvalidKeyType\<close>) when the
  container is a map and the new key synthesizes to a node that is not a primitive, and
  in both cases leaves the root cell as it was. When the container is a map and the new
  key synthesizes to a primitive, it returns, and in the new document the item at the
  path's position has that primitive as key and its \<open>head\<close>, \<open>inner\<close>, \<open>val\<close> and \<open>tail\<close> as
  before, items at diverging positions are the items that were there, and every ancestor
  keeps its trivia, its kind of container, the container's tokens and flags and the
  number of its items. It returns in no other case.
\<close>

theorem replace_key_cases:
  assumes ne: "chain \<noteq> []" and it: "get doc chain = Inr it"
    and par: "get doc (butlast chain) = Inr parent"
  shows "((\<exists>ci its. val parent = List ci its) \<longrightarrow>
            replace_key c doc chain v =
              (Some (Raise TypeError ''Can only replace Map keys, not {}''), doc))
       \<and> (is_Map (val parent) \<and> (\<exists>n. to_ast c v DEFAULT False False = Inr n
              \<and> (\<forall>p. n \<noteq> Prim p)) \<longrightarrow>
            replace_key c doc chain v =
              (Some (Raise TypeError ''Keys must be of type ({}) but got {}''), doc))
       \<and> (\<forall>p. is_Map (val parent) \<and> to_ast c v DEFAULT False False = Inr (Prim p) \<longrightarrow>
            (\<exists>doc' ps. replace_key c doc chain v = (None, doc')
               \<and> resolve doc chain = Inr ps \<and> item_at doc ps = Some it
               \<and> item_at doc' ps =
                   Some (Item (head it) (Some p) (inner it) (val it) (tail it))
               \<and> (\<forall>qs. diverges ps qs \<longrightarrow> item_at doc' qs = item_at doc qs)
               \<and> (\<forall>qs r a. ps = qs @ r \<and> r \<noteq> [] \<and> item_at doc qs = Some a \<longrightarrow>
                     (\<exists>a'. item_at doc' qs = Some a' \<and> head a' = head a
                          \<and> tail a' = tail a \<and> key a' = key a \<and> inner a' = inner a
                          \<and> same_container (val a) (val a')))))
       \<and> (\<forall>doc'. replace_key c doc chain v = (None, doc') \<longrightarrow>
            is_Map (val parent) \<and> (\<exists>p. to_ast c v DEFAULT False False = Inr (Prim p)))"
proof -
  from it obtain ps where ps: "resolve doc chain = Inr ps" "item_at doc ps = Some it"
    by (rule get_resolved)
  note res = set_key_result [OF ne it par ps(1), of c v]
  have rk: "replace_key c doc chain v = store doc (set_key c doc chain v)"
    using ne by (simp add: replace_key_def)
  show ?thesis
  proof (intro conjI impI allI)
    assume "\<exists>ci its. val parent = List ci its"
    then have "\<not> is_Map (val parent)" by auto
    then show "replace_key c doc chain v =
              (Some (Raise TypeError ''Can only replace Map keys, not {}''), doc)"
      by (simp add: rk res store_def)
  next
    assume "is_Map (val parent) \<and> (\<exists>n. to_ast c v DEFAULT False False = Inr n
              \<and> (\<forall>p. n \<noteq> Prim p))"
    then show "replace_key c doc chain v =
              (Some (Raise TypeError ''Keys must be of type ({}) but got {}''), doc)"
      by (auto simp: rk res store_def split: node.splits)
  next
    fix p
    assume ok: "is_Map (val parent) \<and> to_ast c v DEFAULT False False = Inr (Prim p)"
    let ?g = "\<lambda>x. item_replace_key x p"
    let ?doc' = "update_at ?g doc ps"
    have "replace_key c doc chain v = (None, ?doc')"
      using ok by (simp add: rk res store_def)
    moreover have "item_at ?doc' ps = Some (Item (head it) (Some p) (inner it) (val it) (tail it))"
      using item_at_update_same [OF ps(2), of ?g]
      by (simp add: item_replace_key_def)
    moreover have "\<forall>qs. diverges ps qs \<longrightarrow> item_at ?doc' qs = item_at doc qs"
      by (simp add: item_at_update_diverges)
    moreover have "\<forall>qs r a. ps = qs @ r \<and> r \<noteq> [] \<and> item_at doc qs = Some a \<longrightarrow>
                     (\<exists>a'. item_at ?doc' qs = Some a' \<and> head a' = head a
                          \<and> tail a' = tail a \<and> key a' = key a \<and> inner a' = inner a
                          \<and> same_container (val a) (val a'))"
    proof (intro allI impI)
      fix qs r a
      assume h: "ps = qs @ r \<and> r \<noteq> [] \<and> item_at doc qs = Some a"
      then have "item_at doc (qs @ r) = Some it" using ps(2) by simp
      with h show "\<exists>a'. item_at ?doc' qs = Some a' \<and> head a' = head a
                          \<and> tail a' = tail a \<and> key a' = key a \<and> inner a' = inner a
                          \<and> same_container (val a) (val a')"
        using item_at_update_ancestor [of r doc qs a it ?g] by simp
    qed
    ultimately show "\<exists>doc' ps. replace_key c doc chain v = (None, doc')
               \<and> resolve doc chain = Inr ps \<and> item_at doc ps = Some it
               \<and> item_at doc' ps =
                   Some (Item (head it) (Some p) (inner it) (val it) (tail it))
               \<and> (\<forall>qs. diverges ps qs \<longrightarrow> item_at doc' qs = item_at doc qs)
               \<and> (\<forall>qs r a. ps = qs @ r \<and> r \<noteq> [] \<and> item_at doc qs = Some a \<longrightarrow>
                     (\<exists>a'. item_at doc' qs = Some a' \<and> head a' = head a
                          \<and> tail a' = tail a \<and> key a' = key a \<and> inner a' = inner a
                          \<and> same_container (val a) (val a')))"
      using ps by blast
  next
    fix doc'
    assume ok: "replace_key c doc chain v = (None, doc')"
    then show "is_Map (val parent)"
      by (auto simp: rk res store_def split: if_splits)
    from ok show "\<exists>p. to_ast c v DEFAULT False False = Inr (Prim p)"
      by (auto simp: rk res store_def split: if_splits sum.splits node.splits)
  qed
qed

lemma to_ast_examples:
  "to_ast scenario_codec (PPrim (PStr ''z'')) DEFAULT False False =
     Inr (Prim (Primitive String (PStr ''z'') (CHR 0x22 # ''z'' @ [CHR 0x22])))"
  "to_ast scenario_codec (PList []) DEFAULT False False =
     Inr (List \<lparr>is_multiline = False, is_top_level_style = False,
                c_head = [Tok ListStart ''[''], c_tail = [Tok ListEnd '']'']\<rparr> [])"
  by (simp_all add: to_ast_def to_tokens.simps parse_from_tokens_def is_head_trivia_def
        is_doc_trivia_def scenario_codec_def container_def inline_def DEFAULT_def
        parse_items.simps)

lemma replace_key_example:
  "replace_key scenario_codec ex_map_doc [PPrim (PStr ''a'')] (PPrim (PStr ''z'')) =
     (None, ex_rekeyed_doc)"
  by (simp add: replace_key_def set_key_def set_key_cb_def store_def to_ast_examples
        ex_map_doc_def ex_rekeyed_doc_def getitem_def getitem_int_def setitem_def
        setitem_int_def norm_index_def item_replace_key_def item_replace_val_def)

theorem replace_key_cases_witness:
  "replace_key scenario_codec ex_doc [PPrim (PInt 0)] (PPrim (PStr ''z'')) =
     (Some (Raise TypeError ''Can only replace Map keys, not {}''), ex_doc)
   \<and> replace_key scenario_codec ex_map_doc [PPrim (PStr ''a'')] (PList []) =
     (Some (Raise TypeError ''Keys must be of type ({}) but got {}''), ex_map_doc)
   \<and> (\<exists>doc' ps.
         replace_key scenario_codec ex_map_doc [PPrim (PStr ''a'')] (PPrim (PStr ''z'')) =
           (None, doc')
       \<and> resolve ex_map_doc [PPrim (PStr ''a'')] = Inr ps
       \<and> item_at doc' ps =
           Some (Item [] (Some (Primitive String (PStr ''z'') (CHR 0x22 # ''z'' @ [CHR 0x22])))
                   [Tok Colon '':'', Tok Space '' '']
                   (Prim (Primitive IntK (PInt 1) ''1'')) [Tok NL nl_src])
       \<and> (\<forall>qs r a. ps = qs @ r \<and> r \<noteq> [] \<and> item_at ex_map_doc qs = Some a \<longrightarrow>
             (\<exists>a'. item_at doc' qs = Some a' \<and> head a' = head a
                  \<and> tail a' = tail a \<and> key a' = key a \<and> inner a' = inner a
                  \<and> same_container (val a) (val a'))))
   \<and> replace_key scenario_codec ex_map_doc [PPrim (PStr ''a'')] (PPrim (PStr ''z'')) =
       (None, ex_rekeyed_doc)"
proof -
  let ?it = "Item [] (Some (Primitive BareWordKey (PStr ''a'') ''a''))
           [Tok Colon '':'', Tok Space '' '']
           (Prim (Primitive IntK (PInt 1) ''1'')) [Tok NL nl_src]"
  let ?p = "Primitive String (PStr ''z'') (CHR 0x22 # ''z'' @ [CHR 0x22])"
  have g1: "get ex_doc [PPrim (PInt 0)] = Inr (ex_items ! 0)"
    by (simp add: ex_doc_def ex_items_def getitem_def getitem_int_def norm_index_def)
  have g2: "get ex_map_doc [PPrim (PStr ''a'')] = Inr ?it"
    by (simp add: ex_map_doc_def getitem_def getitem_int_def norm_index_def)
  have p1: "get ex_doc (butlast [PPrim (PInt 0)]) = Inr ex_doc"
    and p2: "get ex_map_doc (butlast [PPrim (PStr ''a'')]) = Inr ex_map_doc"
    by simp_all
  have m: "is_Map (val ex_map_doc)" by (simp add: ex_map_doc_def)
  have a: "replace_key scenario_codec ex_doc [PPrim (PInt 0)] (PPrim (PStr ''z'')) =
     (Some (Raise TypeError ''Can only replace Map keys, not {}''), ex_doc)"
    using replace_key_cases [OF _ g1 p1, of scenario_codec "PPrim (PStr ''z'')"]
    by (simp add: ex_doc_def)
  have b: "replace_key scenario_codec ex_map_doc [PPrim (PStr ''a'')] (PList []) =
     (Some (Raise TypeError ''Keys must be of type ({}) but got {}''), ex_map_doc)"
    using replace_key_cases [OF _ g2 p2, of scenario_codec "PList []"] m
    by (simp add: to_ast_examples)
  have "\<forall>p. is_Map (val ex_map_doc)
            \<and> to_ast scenario_codec (PPrim (PStr ''z'')) DEFAULT False False = Inr (Prim p) \<longrightarrow>
          (\<exists>doc' ps.
             replace_key scenario_codec ex_map_doc [PPrim (PStr ''a'')] (PPrim (PStr ''z'')) =
               (None, doc')
           \<and> resolve ex_map_doc [PPrim (PStr ''a'')] = Inr ps
           \<and> item_at ex_map_doc ps = Some ?it
           \<and> item_at doc' ps = Some (Item (head ?it) (Some p) (inner ?it) (val ?it) (tail ?it))
           \<and> (\<forall>qs. diverges ps qs \<longrightarrow> item_at doc' qs = item_at ex_map_doc qs)
           \<and> (\<forall>qs r a. ps = qs @ r \<and> r \<noteq> [] \<and> item_at ex_map_doc qs = Some a \<longrightarrow>
                 (\<exists>a'. item_at doc' qs = Some a' \<and> head a' = head a
                      \<and> tail a' = tail a \<and> key a' = key a \<and> inner a' = inner a
                      \<and> same_container (val a) (val a'))))"
    using replace_key_cases [OF _ g2 p2, of scenario_codec "PPrim (PStr ''z'')"] by blast
  then have "\<exists>doc' ps.
             replace_key scenario_codec ex_map_doc [PPrim (PStr ''a'')] (PPrim (PStr ''z'')) =
               (None, doc')
           \<and> resolve ex_map_doc [PPrim (PStr ''a'')] = Inr ps
           \<and> item_at ex_map_doc ps = Some ?it
           \<and> item_at doc' ps = Some (Item (head ?it) (Some ?p) (inner ?it) (val ?it) (tail ?it))
           \<and> (\<forall>qs. diverges ps qs \<longrightarrow> item_at doc' qs = item_at ex_map_doc qs)
           \<and> (\<forall>qs r a. ps = qs @ r \<and> r \<noteq> [] \<and> item_at ex_map_doc qs = Some a \<longrightarrow>
                 (\<exists>a'. item_at doc' qs = Some a' \<and> head a' = head a
                      \<and> tail a' = tail a \<and> key a' = key a \<and> inner a' = inner a
                      \<and> same_container (val a) (val a')))"
    using m to_ast_examples(1) by blast
  then have c: "\<exists>doc' ps.
         replace_key scenario_codec ex_map_doc [PPrim (PStr ''a'')] (PPrim (PStr ''z'')) =
           (None, doc')
       \<and> resolve ex_map_doc [PPrim (PStr ''a'')] = Inr ps
       \<and> item_at doc' ps =
           Some (Item [] (Some ?p) [Tok Colon '':'', Tok Space '' '']
                   (Prim (Primitive IntK (PInt 1) ''1'')) [Tok NL nl_src])
       \<and> (\<forall>qs r a. ps = qs @ r \<and> r \<noteq> [] \<and> item_at ex_map_doc qs = Some a \<longrightarrow>
             (\<exists>a'. item_at doc' qs = Some a' \<and> head a' = head a
                  \<and> tail a' = tail a \<and> key a' = key a \<and> inner a' = inner a
                  \<and> same_container (val a) (val a')))"
    by (simp only: item.sel) blast
  from a b c replace_key_example show ?thesis by blast
qed

section \<open>Synthesize, parse, project\<close>

text \<open>
  The tokens of an item as the parser reads them: they open with a primitive or an opening
  bracket, and whatever follows them, the key and the value are parsed and what follows is
  left. A description of an item is its tokens, key, inner tokens and value node.
\<close>

fun starts_value :: "token \<Rightarrow> bool" where
  "starts_value (PrimTok p) = True"
| "starts_value (Tok k s) = (k = ListStart \<or> k = MapStart)"

definition item_tokens ::
  "bool \<Rightarrow> token list \<Rightarrow> primitive option \<Rightarrow> token list \<Rightarrow> node \<Rightarrow> bool" where
  "item_tokens m ts k inn n =
     (ts \<noteq> [] \<and> starts_value (hd ts) \<and>
      (\<forall>r. \<exists>r1. parse_key m (ts @ r) = Inr (k, inn, r1) \<and> parse_value r1 = Inr (n, r)))"

definition value_tokens :: "token list \<Rightarrow> node \<Rightarrow> bool" where
  "value_tokens ts n =
     (((\<exists>q. ts = [PrimTok q]) \<or> (\<exists>a ts'. ts = Tok ListStart a # ts')
        \<or> (\<exists>a ts'. ts = Tok MapStart a # ts'))
      \<and> (\<forall>r. parse_value (ts @ r) = Inr (n, r)))"

definition closer :: "tkind \<Rightarrow> bool" where
  "closer e = (e = ListEnd \<or> e = MapEnd)"

lemma starts_value_not_trivia:
  "starts_value t \<Longrightarrow> \<not> is_head_trivia t"
  "starts_value t \<Longrightarrow> closer e \<Longrightarrow> \<not> tok_is e t"
  "starts_value t \<Longrightarrow> \<not> tok_is Comma t \<and> \<not> tok_is Space t \<and> \<not> tok_is Comment t \<and> \<not> tok_is NL t"
  by (cases t; auto simp: is_head_trivia_def closer_def)+

lemma take_tail_closer:
  "closer e \<Longrightarrow> take_tail b (Tok e s # r) = ([], Tok e s # r)"
  by (auto simp: take_tail_def closer_def)

lemma take_tail_comma_space:
  "starts_value t \<Longrightarrow>
     take_tail True (Tok Comma c # Tok Space s # t # r) = ([Tok Comma c, Tok Space s], t # r)"
  using starts_value_not_trivia(3) [of t] by (simp add: take_tail_def)

lemma take_tail_comma_nl:
  "take_tail True (Tok Comma c # Tok NL s # r) = ([Tok Comma c, Tok NL s], r)"
  by (simp add: take_tail_def)

lemma take_tail_nl:
  "take_tail False (Tok NL s # r) = ([Tok NL s], r)"
  by (simp add: take_tail_def)

lemma take_tail_suffix: "length (snd (take_tail b r)) \<le> length r"
  by (rule take_tail_length)

lemma parse_items_end:
  assumes "closer e" "\<forall>t \<in> set h. is_head_trivia t"
  shows "parse_items m e (h @ Tok e s # rest) = Inr ([], h @ [Tok e s], rest)"
proof -
  have nt: "\<not> is_head_trivia (Tok e s)"
    using assms(1) by (auto simp: is_head_trivia_def closer_def)
  have "dropWhile is_head_trivia (h @ Tok e s # rest) = Tok e s # rest"
    using assms(2) nt by (simp add: dropWhile_append3)
  moreover have "takeWhile is_head_trivia (h @ Tok e s # rest) = h"
    using assms(2) nt by (simp add: takeWhile_tail)
  ultimately show ?thesis
    by (simp add: parse_items.simps)
qed

lemma parse_items_step:
  assumes it: "item_tokens m ts k inn n" and e: "closer e"
    and h: "\<forall>t \<in> set h. is_head_trivia t"
  shows "parse_items m e (h @ ts @ rst) =
     (if has_comma (fst (take_tail True rst)) then
        (case parse_items m e (snd (take_tail True rst)) of
           Inl err \<Rightarrow> Inl err
         | Inr (its, closing, r4) \<Rightarrow>
             Inr (Item h k inn n (fst (take_tail True rst)) # its, closing, r4))
      else
        (case dropWhile is_head_trivia (snd (take_tail True rst)) of
           [] \<Rightarrow> Inl perr
         | t2 # r5 \<Rightarrow>
             if tok_is e t2 then
               Inr ([Item h k inn n (fst (take_tail True rst))],
                    takeWhile is_head_trivia (snd (take_tail True rst)) @ [t2], r5)
             else Inl perr))"
proof -
  from it obtain t ts' where ts: "ts = t # ts'" and sv: "starts_value t"
    by (cases ts) (auto simp: item_tokens_def)
  from it obtain r1 where pk: "parse_key m (ts @ rst) = Inr (k, inn, r1)"
    and pv: "parse_value r1 = Inr (n, rst)"
    by (auto simp: item_tokens_def)
  have nt: "\<not> is_head_trivia t" using sv by (rule starts_value_not_trivia)
  have d: "dropWhile is_head_trivia (h @ ts @ rst) = t # ts' @ rst"
    using h nt ts by (simp add: dropWhile_append3)
  have tk: "takeWhile is_head_trivia (h @ ts @ rst) = h"
    using h nt ts by (simp add: takeWhile_tail)
  have ne: "\<not> tok_is e t" using sv e by (rule starts_value_not_trivia)
  have len: "length (snd (take_tail True rst)) < length (h @ ts @ rst)"
    using take_tail_suffix [of True rst] ts by simp
  show ?thesis
    apply (subst parse_items.simps)
    apply (simp only: d tk list.case ne if_False)
    using pk pv len unfolding ts
    apply (simp only: append_Cons sum.case prod.case if_True)
    done
qed


type_synonym desc = "token list \<times> primitive option \<times> token list \<times> node"

definition desc_ok :: "bool \<Rightarrow> desc \<Rightarrow> bool" where
  "desc_ok m d = (case d of (ts, k, inn, n) \<Rightarrow> item_tokens m ts k inn n)"

fun inline_items :: "desc list \<Rightarrow> item list" where
  "inline_items [] = []"
| "inline_items [(ts, k, inn, n)] = [Item [] k inn n []]"
| "inline_items ((ts, k, inn, n) # ds) =
     Item [] k inn n [Tok Comma '','', Tok Space '' ''] # inline_items ds"

definition multiline_items :: "string \<Rightarrow> desc list \<Rightarrow> item list" where
  "multiline_items ind ds =
     map (\<lambda>(ts, k, inn, n). Item [Tok Indent ind] k inn n [Tok Comma '','', Tok NL nl_src]) ds"

definition top_items :: "desc list \<Rightarrow> item list" where
  "top_items ds = map (\<lambda>(ts, k, inn, n). Item [] k inn n [Tok NL nl_src]) ds"

lemma inline_items_fields:
  "map key (inline_items ds) = map (\<lambda>(ts, k, inn, n). k) ds"
  "map val (inline_items ds) = map (\<lambda>(ts, k, inn, n). n) ds"
  by (induction ds rule: inline_items.induct) simp_all

lemma multiline_items_fields:
  "map key (multiline_items ind ds) = map (\<lambda>(ts, k, inn, n). k) ds"
  "map val (multiline_items ind ds) = map (\<lambda>(ts, k, inn, n). n) ds"
  by (simp_all add: multiline_items_def split_def)

lemma top_items_fields:
  "map key (top_items ds) = map (\<lambda>(ts, k, inn, n). k) ds"
  "map val (top_items ds) = map (\<lambda>(ts, k, inn, n). n) ds"
  by (simp_all add: top_items_def split_def)

lemma desc_starts:
  "desc_ok m (ts, k, inn, n) \<Longrightarrow> \<exists>t ts'. ts = t # ts' \<and> starts_value t"
  by (cases ts) (auto simp: desc_ok_def item_tokens_def)

lemma parse_items_inline:
  assumes e: "closer e"
  shows "desc_ok m (ts, k, inn, n) \<Longrightarrow> \<forall>d \<in> set ds. desc_ok m d \<Longrightarrow>
     parse_items m e
       (ts @ concat (map (\<lambda>d. Tok Comma '','' # Tok Space '' '' # fst d) ds) @ Tok e s # rest) =
     Inr (inline_items ((ts, k, inn, n) # ds), [Tok e s], rest)"
proof (induction ds arbitrary: ts k inn n)
  case Nil
  have it: "item_tokens m ts k inn n" using Nil(1) by (simp add: desc_ok_def)
  have nt: "\<not> is_head_trivia (Tok e s)"
    using e by (auto simp: is_head_trivia_def closer_def)
  show ?case
    using parse_items_step [OF it e, of "[]" "Tok e s # rest"] nt
    by (simp add: take_tail_closer [OF e] has_comma_def)
next
  case (Cons d ds)
  obtain ts2 k2 inn2 n2 where d: "d = (ts2, k2, inn2, n2)" by (cases d) auto
  have it: "item_tokens m ts k inn n" using Cons.prems(1) by (simp add: desc_ok_def)
  have ok2: "desc_ok m (ts2, k2, inn2, n2)" using Cons.prems(2) d by simp
  then obtain t ts' where ts2: "ts2 = t # ts'" and sv: "starts_value t"
    using desc_starts by blast
  let ?tl = "concat (map (\<lambda>d. Tok Comma '','' # Tok Space '' '' # fst d) ds) @ Tok e s # rest"
  have IH: "parse_items m e (ts2 @ ?tl) = Inr (inline_items ((ts2, k2, inn2, n2) # ds), [Tok e s], rest)"
    using Cons.IH [OF ok2] Cons.prems(2) by simp
  have tt: "take_tail True (Tok Comma '','' # Tok Space '' '' # ts2 @ ?tl) =
              ([Tok Comma '','', Tok Space '' ''], ts2 @ ?tl)"
    unfolding ts2 using take_tail_comma_space [OF sv] by simp
  show ?case
    using parse_items_step [OF it e, of "[]" "Tok Comma '','' # Tok Space '' '' # ts2 @ ?tl"]
    by (simp add: d tt IH has_comma_def)
qed

lemma parse_items_multiline:
  assumes e: "closer e" and cl: "\<forall>t \<in> set cl. is_head_trivia t"
  shows "\<forall>d \<in> set ds. desc_ok m d \<Longrightarrow>
     parse_items m e
       (concat (map (\<lambda>d. Tok Indent ind # fst d @ [Tok Comma '','', Tok NL nl_src]) ds)
        @ cl @ Tok e s # rest) =
     Inr (multiline_items ind ds, cl @ [Tok e s], rest)"
proof (induction ds)
  case Nil
  show ?case
    using parse_items_end [OF e cl] by (simp add: multiline_items_def)
next
  case (Cons d ds)
  obtain ts k inn n where d: "d = (ts, k, inn, n)" by (cases d) auto
  have it: "item_tokens m ts k inn n" using Cons.prems d by (simp add: desc_ok_def)
  let ?tl = "concat (map (\<lambda>d. Tok Indent ind # fst d @ [Tok Comma '','', Tok NL nl_src]) ds)
        @ cl @ Tok e s # rest"
  have IH: "parse_items m e ?tl = Inr (multiline_items ind ds, cl @ [Tok e s], rest)"
    using Cons.IH Cons.prems by simp
  have h: "\<forall>t \<in> set [Tok Indent ind]. is_head_trivia t"
    by (simp add: is_head_trivia_def)
  show ?case
    using parse_items_step [OF it e h, of "Tok Comma '','' # Tok NL nl_src # ?tl"]
    by (simp add: d take_tail_comma_nl IH has_comma_def multiline_items_def)
qed


lemma value_tokens_starts:
  "value_tokens ts n \<Longrightarrow> \<exists>t ts'. ts = t # ts' \<and> starts_value t"
  by (auto simp: value_tokens_def)

lemma value_desc_ok: "value_tokens ts n \<Longrightarrow> desc_ok False (ts, None, [], n)"
  using value_tokens_starts [of ts n]
  by (auto simp: desc_ok_def item_tokens_def value_tokens_def)

definition entry_desc :: "desc \<Rightarrow> bool" where
  "entry_desc d =
     (\<exists>kp vt n. value_tokens vt n \<and>
        d = (PrimTok kp # Tok Colon '':'' # Tok Space '' '' # vt, Some kp,
             [Tok Colon '':'', Tok Space '' ''], n))"

lemma entry_desc_ok: "entry_desc d \<Longrightarrow> desc_ok True d"
  by (auto simp: entry_desc_def desc_ok_def item_tokens_def value_tokens_def)

lemma parse_top_items_entries:
  assumes rest: "\<not> starts_entry (dropWhile is_head_trivia rest)"
  shows "\<forall>d \<in> set ds. entry_desc d \<Longrightarrow>
     parse_top_items (concat (map (\<lambda>d. fst d @ [Tok NL nl_src]) ds) @ rest) =
       Inr (top_items ds, rest)"
proof (induction ds)
  case Nil
  show ?case
    using rest by (subst parse_top_items.simps) (simp add: top_items_def)
next
  case (Cons d ds)
  from Cons.prems obtain kp vt n where vt: "value_tokens vt n"
    and d: "d = (PrimTok kp # Tok Colon '':'' # Tok Space '' '' # vt, Some kp,
             [Tok Colon '':'', Tok Space '' ''], n)"
    by (auto simp: entry_desc_def)
  let ?tl = "concat (map (\<lambda>d. fst d @ [Tok NL nl_src]) ds) @ rest"
  have IH: "parse_top_items ?tl = Inr (top_items ds, rest)"
    using Cons.IH Cons.prems by simp
  have pv: "parse_value (vt @ Tok NL nl_src # ?tl) = Inr (n, Tok NL nl_src # ?tl)"
    using vt by (simp add: value_tokens_def)
  have nt: "\<not> is_head_trivia (PrimTok kp)" by (simp add: is_head_trivia_def)
  show ?case
    apply (subst parse_top_items.simps)
    apply (simp add: d nt pv take_tail_nl IH top_items_def)
    done
qed

definition bracket_ok :: "tkind \<Rightarrow> tkind \<Rightarrow> bool \<Rightarrow> bool" where
  "bracket_ok st e m = ((st = ListStart \<and> e = ListEnd \<and> \<not> m) \<or> (st = MapStart \<and> e = MapEnd \<and> m))"

definition mk :: "bool \<Rightarrow> cinfo \<Rightarrow> item list \<Rightarrow> node" where
  "mk m ci its = (if m then Map ci its else List ci its)"

lemma opt_NL_starts: "starts_value t \<Longrightarrow> opt NL (t # r) = ([], t # r)"
  using starts_value_not_trivia(3) [of t] by simp

lemma inline_parse:
  assumes b: "bracket_ok st e m" and ok: "\<forall>d \<in> set ds. desc_ok m d"
  shows "parse_value (inline_form (Tok st a) (Tok e b) (map fst ds) @ r) =
           Inr (mk m \<lparr>is_multiline = False, is_top_level_style = False,
                       c_head = [Tok st a], c_tail = [Tok e b]\<rparr> (inline_items ds), r)"
proof -
  have e: "closer e" using b by (auto simp: bracket_ok_def closer_def)
  show ?thesis
  proof (cases ds)
    case Nil
    have "parse_items m e ([] @ Tok e b # r) = Inr ([], [] @ [Tok e b], r)"
      by (rule parse_items_end [OF e]) simp
    then show ?thesis
      using b Nil by (auto simp: inline_form_def bracket_ok_def mk_def)
  next
    case (Cons d ds')
    obtain ts k inn n where d: "d = (ts, k, inn, n)" by (cases d) auto
    have okd: "desc_ok m (ts, k, inn, n)" and ok': "\<forall>d \<in> set ds'. desc_ok m d"
      using ok Cons d by auto
    obtain t ts' where ts: "ts = t # ts'" and sv: "starts_value t"
      using desc_starts [OF okd] by blast
    let ?body = "ts @ concat (map (\<lambda>d. Tok Comma '','' # Tok Space '' '' # fst d) ds')
                 @ Tok e b # r"
    have p: "parse_items m e ?body = Inr (inline_items ds, [Tok e b], r)"
      using parse_items_inline [OF e okd ok'] Cons d by simp
    have o: "opt NL ?body = ([], ?body)"
      unfolding ts using opt_NL_starts [OF sv] by simp
    have form: "inline_form (Tok st a) (Tok e b) (map fst ds) @ r = Tok st a # ?body"
      by (simp add: inline_form_def Cons d comma_separated_Cons comp_def
            del: comma_separated.simps)
    show ?thesis
      unfolding form using b o p
      by (auto simp: bracket_ok_def mk_def)
  qed
qed

lemma multiline_parse:
  assumes b: "bracket_ok st e m" and ok: "\<forall>d \<in> set ds. desc_ok m d"
  shows "parse_value (multiline_form (Tok st a) (Tok e b) n (map fst ds) @ r) =
           Inr (mk m \<lparr>is_multiline = True, is_top_level_style = False,
                       c_head = [Tok st a, Tok NL nl_src],
                       c_tail = (if n > 0 then [Tok Indent (replicate (4 * nat n) CHR '' '')]
                                 else []) @ [Tok e b]\<rparr>
                  (multiline_items (replicate (4 * nat (n + 1)) CHR '' '') ds), r)"
proof -
  have e: "closer e" using b by (auto simp: bracket_ok_def closer_def)
  let ?cl = "if n > 0 then [Tok Indent (replicate (4 * nat n) CHR '' '')] else []"
  let ?ind = "replicate (4 * nat (n + 1)) CHR '' ''"
  let ?body = "concat (map (\<lambda>d. Tok Indent ?ind # fst d @ [Tok Comma '','', Tok NL nl_src]) ds)
               @ ?cl @ Tok e b # r"
  have cl: "\<forall>t \<in> set ?cl. is_head_trivia t" by (simp add: is_head_trivia_def)
  have p: "parse_items m e ?body = Inr (multiline_items ?ind ds, ?cl @ [Tok e b], r)"
    by (rule parse_items_multiline [OF e cl ok])
  have form: "multiline_form (Tok st a) (Tok e b) n (map fst ds) @ r =
                Tok st a # Tok NL nl_src # ?body"
    by (simp add: multiline_form_def comp_def)
  show ?thesis
    unfolding form using b p
    by (auto simp: bracket_ok_def mk_def)
qed




lemma item_value_fields: "item_value it = (key it, python_value (val it))"
  by (cases it) simp

lemma list_values_ok: "list_values (map Inr ws) acc = Inr (acc @ ws)"
  by (induction ws arbitrary: acc) simp_all

lemma od_insert_fresh:
  "\<forall>k' \<in> fst ` set acc. \<not> py_eq k k' \<Longrightarrow> od_insert acc k v = acc @ [(PPrim k, v)]"
  by (induction acc) auto

lemma distinct_keys_append:
  "distinct_keys (xs @ [PPrim k]) \<Longrightarrow> \<forall>k' \<in> set xs. \<not> py_eq k k'"
  by (induction xs) auto

lemma distinct_keys_prefix: "distinct_keys (xs @ ys) \<Longrightarrow> distinct_keys xs"
  by (induction xs) auto

lemma dict_values_ok:
  "distinct_keys (map fst acc @ map (\<lambda>(k, w). PPrim (p_val k)) kws) \<Longrightarrow>
     dict_values (map (\<lambda>(k, w). (Some k, Inr w)) kws) acc =
       Inr (acc @ map (\<lambda>(k, w). (PPrim (p_val k), w)) kws)"
proof (induction kws arbitrary: acc)
  case Nil
  then show ?case by simp
next
  case (Cons kw kws)
  obtain k w where kw: "kw = (k, w)" by (cases kw) auto
  have d: "distinct_keys ((map fst acc @ [PPrim (p_val k)]) @ map (\<lambda>(k, w). PPrim (p_val k)) kws)"
    using Cons.prems kw by simp
  then have "distinct_keys (map fst acc @ [PPrim (p_val k)])"
    by (rule distinct_keys_prefix)
  then have "\<forall>k' \<in> set (map fst acc). \<not> py_eq (p_val k) k'"
    by (rule distinct_keys_append)
  then have ins: "od_insert acc (p_val k) w = acc @ [(PPrim (p_val k), w)]"
    by (intro od_insert_fresh) simp
  have "dict_values (map (\<lambda>(k, w). (Some k, Inr w)) kws) (acc @ [(PPrim (p_val k), w)]) =
          Inr ((acc @ [(PPrim (p_val k), w)]) @ map (\<lambda>(k, w). (PPrim (p_val k), w)) kws)"
    by (rule Cons.IH) (use d in simp)
  then show ?case by (simp add: kw ins)
qed

definition d_key :: "desc \<Rightarrow> primitive option" where
  "d_key d = (case d of (ts, k, inn, n) \<Rightarrow> k)"

definition d_val :: "desc \<Rightarrow> node" where
  "d_val d = (case d of (ts, k, inn, n) \<Rightarrow> n)"

lemma items_of_descs:
  assumes "map key its = map d_key ds" "map val its = map d_val ds"
  shows "map item_value its = map (\<lambda>d. (d_key d, python_value (d_val d))) ds"
proof -
  have len: "length its = length ds" using assms(1) by (metis length_map)
  show ?thesis
  proof (rule nth_equalityI)
    show "length (map item_value its) = length (map (\<lambda>d. (d_key d, python_value (d_val d))) ds)"
      using len by simp
  next
    fix i assume "i < length (map item_value its)"
    then have i: "i < length its" by simp
    have "key (its ! i) = d_key (ds ! i)" "val (its ! i) = d_val (ds ! i)"
      using assms i len by (metis nth_map)+
    then show "map item_value its ! i = map (\<lambda>d. (d_key d, python_value (d_val d))) ds ! i"
      using i len by (simp add: item_value_fields)
  qed
qed

lemma list_values_comp: "list_values (map (\<lambda>x. Inr (G x)) xs) acc = Inr (acc @ map G xs)"
  using list_values_ok [of "map G xs" acc] by (simp add: comp_def)

lemma python_value_list:
  assumes "map key its = map d_key ds" "map val its = map d_val ds"
    and "list_all2 (\<lambda>d x. python_value (d_val d) = Inr (G x)) ds xs"
  shows "python_value (List ci its) = Inr (PList (map G xs))"
proof -
  have "map snd (map item_value its) =
          map snd (map (\<lambda>d. (d_key d, python_value (d_val d))) ds)"
    by (simp only: items_of_descs [OF assms(1,2)])
  then have "map (\<lambda>it. snd (item_value it)) its = map (\<lambda>d. python_value (d_val d)) ds"
    by (simp add: comp_def)
  also have "\<dots> = map (\<lambda>x. Inr (G x)) xs"
    using assms(3) by (induction rule: list_all2_induct) simp_all
  finally have "map (\<lambda>it. snd (item_value it)) its = map (\<lambda>x. Inr (G x)) xs" .
  then show ?thesis by (simp add: list_values_comp)
qed

lemma python_value_map:
  assumes "map key its = map d_key ds" "map val its = map d_val ds"
    and "list_all2 (\<lambda>d kv. \<exists>kp. d_key d = Some kp \<and> PPrim (p_val kp) = fst kv
                          \<and> python_value (d_val d) = Inr (G (snd kv))) ds dct"
    and "distinct_keys (map fst dct)"
  shows "python_value (Map ci its) = Inr (PDict (map (\<lambda>kv. (fst kv, G (snd kv))) dct))"
proof -
  from assms(3) obtain kws where
    kws1: "map (\<lambda>d. (d_key d, python_value (d_val d))) ds = map (\<lambda>(k, w). (Some k, Inr w)) kws"
    and kws2: "map (\<lambda>(k, w). (PPrim (p_val k), w)) kws = map (\<lambda>kv. (fst kv, G (snd kv))) dct"
  proof (induction arbitrary: thesis rule: list_all2_induct)
    case Nil
    show ?case by (rule Nil(1) [of "[]"]) simp_all
  next
    case (Cons d ds kv dct)
    from Cons(1) obtain kp where kp: "d_key d = Some kp" "PPrim (p_val kp) = fst kv"
      "python_value (d_val d) = Inr (G (snd kv))" by blast
    show ?case
    proof (rule Cons(3))
      fix kws
      assume a: "map (\<lambda>d. (d_key d, python_value (d_val d))) ds = map (\<lambda>(k, w). (Some k, Inr w)) kws"
        and b: "map (\<lambda>(k, w). (PPrim (p_val k), w)) kws = map (\<lambda>kv. (fst kv, G (snd kv))) dct"
      show thesis
        by (rule Cons(4) [of "(kp, G (snd kv)) # kws"]) (simp_all add: a b kp)
    qed
  qed
  have keys: "map (\<lambda>(k, w). PPrim (p_val k)) kws = map fst dct"
  proof -
    have "map fst (map (\<lambda>(k, w). (PPrim (p_val k), w)) kws) = map fst (map (\<lambda>kv. (fst kv, G (snd kv))) dct)"
      by (simp only: kws2)
    then show ?thesis by (simp add: comp_def split_def)
  qed
  have "dict_values (map item_value its) [] = Inr (map (\<lambda>kv. (fst kv, G (snd kv))) dct)"
    using dict_values_ok [of "[]" kws] assms(4)
    by (simp add: items_of_descs [OF assms(1,2)] kws1 kws2 keys)
  then show ?thesis by simp
qed

lemma build_descs:
  "\<forall>x \<in> set xs. \<exists>d. F x = Inr (fst d) \<and> P d \<and> Q d x \<Longrightarrow>
     \<exists>ds. collect (map F xs) = Inr (map fst ds) \<and> (\<forall>d \<in> set ds. P d) \<and> list_all2 Q ds xs"
proof (induction xs)
  case Nil
  then show ?case by simp
next
  case (Cons x xs)
  then obtain d ds where "F x = Inr (fst d)" "P d" "Q d x"
    "collect (map F xs) = Inr (map fst ds)" "\<forall>d \<in> set ds. P d" "list_all2 Q ds xs"
    by auto
  then show ?case
    by (intro exI [of _ "d # ds"]) simp
qed


lemma top_level_map_loop_collect:
  "top_level_map_loop f s kvs acc =
     (case collect (map (\<lambda>kv. f kv s) kvs) of
        Inl e \<Rightarrow> Inl e
      | Inr tss \<Rightarrow> Inr (acc @ concat (map (\<lambda>ts. ts @ [Tok NL nl_src]) tss)))"
  by (induction kvs arbitrary: acc) (auto split: sum.splits)

lemma container_roundtrip:
  assumes b: "bracket_ok st e m"
    and descs: "\<And>s'. \<exists>ds. collect (map (\<lambda>x. f x s') xs) = Inr (map fst ds)
                  \<and> (\<forall>d \<in> set ds. desc_ok m d) \<and> list_all2 Q ds xs"
  shows "\<exists>ts ci its ds. container f (Tok st a) (Tok e b') xs s = Inr ts
           \<and> value_tokens ts (mk m ci its)
           \<and> map key its = map d_key ds \<and> map val its = map d_val ds \<and> list_all2 Q ds xs"
proof (cases "indent s < 0 \<or> xs = [] \<or> (inline_small_containers s \<and> length xs < 2)")
  case True
  from descs [of s] obtain ds where ds: "collect (map (\<lambda>x. f x s) xs) = Inr (map fst ds)"
    "\<forall>d \<in> set ds. desc_ok m d" "list_all2 Q ds xs" by blast
  let ?ts = "inline_form (Tok st a) (Tok e b') (map fst ds)"
  let ?ci = "\<lparr>is_multiline = False, is_top_level_style = False,
              c_head = [Tok st a], c_tail = [Tok e b']\<rparr>"
  have "container f (Tok st a) (Tok e b') xs s = Inr ?ts"
    using True ds(1) by (simp only: container_def inline_collect if_True sum.case)
  moreover have "value_tokens ?ts (mk m ?ci (inline_items ds))"
    using b inline_parse [OF b ds(2), of a b']
    by (auto simp: value_tokens_def inline_form_def bracket_ok_def)
  moreover have "map key (inline_items ds) = map d_key ds"
    "map val (inline_items ds) = map d_val ds"
    by (simp_all add: inline_items_fields d_key_def d_val_def split_def)
  ultimately show ?thesis using ds(3) by blast
next
  case False
  then have nn: "indent s \<ge> 0" by simp
  let ?s' = "s\<lparr>indent := indent s + 1\<rparr>"
  from descs [of ?s'] obtain ds where ds: "collect (map (\<lambda>x. f x ?s') xs) = Inr (map fst ds)"
    "\<forall>d \<in> set ds. desc_ok m d" "list_all2 Q ds xs" by blast
  let ?ts = "multiline_form (Tok st a) (Tok e b') (indent s) (map fst ds)"
  let ?ci = "\<lparr>is_multiline = True, is_top_level_style = False,
              c_head = [Tok st a, Tok NL nl_src],
              c_tail = (if indent s > 0 then [Tok Indent (replicate (4 * nat (indent s)) CHR '' '')]
                        else []) @ [Tok e b']\<rparr>"
  let ?its = "multiline_items (replicate (4 * nat (indent s + 1)) CHR '' '') ds"
  have "container f (Tok st a) (Tok e b') xs s = Inr ?ts"
    using False ds(1) by (simp only: container_def multiline_collect [OF nn] if_False sum.case)
  moreover have "value_tokens ?ts (mk m ?ci ?its)"
    using b multiline_parse [OF b ds(2), of a b' "indent s"]
    by (auto simp: value_tokens_def multiline_form_def bracket_ok_def)
  moreover have "map key ?its = map d_key ds" "map val ?its = map d_val ds"
    by (simp_all add: multiline_items_fields d_key_def d_val_def split_def)
  ultimately show ?thesis using ds(3) by blast
qed

lemma key_token:
  "\<exists>kp. to_tokens c (PPrim p) s True False = Inr [PrimTok kp] \<and> p_val kp = p"
  by (cases p) (simp_all add: to_tokens.simps)

definition entry_rel :: "(pyval \<Rightarrow> pyval) \<Rightarrow> desc \<Rightarrow> pyval \<times> pyval \<Rightarrow> bool" where
  "entry_rel G d kv =
     (\<exists>kp. d_key d = Some kp \<and> PPrim (p_val kp) = fst kv
          \<and> python_value (d_val d) = Inr (G (snd kv)))"

lemma entry_descs:
  assumes "\<forall>kv \<in> set dct. is_prim (fst kv) \<and>
             (\<exists>ts n. to_tokens c (snd kv) s False False = Inr ts \<and> value_tokens ts n
                   \<and> python_value n = Inr (as_lists (snd kv)))"
  shows "\<exists>ds. collect (map (\<lambda>kv. map_item_tokens c kv s) dct) = Inr (map fst ds)
           \<and> (\<forall>d \<in> set ds. entry_desc d) \<and> list_all2 (entry_rel as_lists) ds dct"
proof (rule build_descs, rule ballI)
  fix kv assume "kv \<in> set dct"
  with assms obtain p ts n where k: "fst kv = PPrim p"
    and ts: "to_tokens c (snd kv) s False False = Inr ts" "value_tokens ts n"
      "python_value n = Inr (as_lists (snd kv))"
    by (metis is_prim.elims(2))
  obtain kp where kp: "to_tokens c (PPrim p) s True False = Inr [PrimTok kp]" "p_val kp = p"
    using key_token by blast
  let ?d = "(PrimTok kp # Tok Colon '':'' # Tok Space '' '' # ts, Some kp,
             [Tok Colon '':'', Tok Space '' ''], n)"
  have "map_item_tokens c kv s = Inr (fst ?d)"
    by (simp add: map_item_tokens.simps k kp ts(1))
  moreover have "entry_desc ?d"
    using ts(2) by (auto simp: entry_desc_def)
  moreover have "entry_rel as_lists ?d kv"
    using k kp(2) ts(3) by (simp add: entry_rel_def d_key_def d_val_def)
  ultimately show "\<exists>d. map_item_tokens c kv s = Inr (fst d) \<and> entry_desc d
                      \<and> entry_rel as_lists d kv"
    by blast
qed

lemma to_tokens_roundtrip:
  "plain v \<Longrightarrow>
     \<exists>ts n. to_tokens c v s as_key False = Inr ts \<and> value_tokens ts n
           \<and> python_value n = Inr (as_lists v)"
proof (induction v arbitrary: s as_key rule: plain.induct)
  case (1 p)
  then show ?case
    by (cases p) (simp_all add: to_tokens.simps value_tokens_def)
next
  case (2 xs)
  have descs: "\<exists>ds. collect (map (\<lambda>x. to_tokens c x s' False False) xs) = Inr (map fst ds)
                  \<and> (\<forall>d \<in> set ds. desc_ok False d)
                  \<and> list_all2 (\<lambda>d x. python_value (d_val d) = Inr (as_lists x)) ds xs" for s'
  proof (rule build_descs, rule ballI)
    fix x assume x: "x \<in> set xs"
    then have "plain x" using "2.prems" by simp
    from "2.IH" [OF x this, of s' False] obtain ts n
      where "to_tokens c x s' False False = Inr ts" "value_tokens ts n"
        "python_value n = Inr (as_lists x)" by blast
    then show "\<exists>d. to_tokens c x s' False False = Inr (fst d) \<and> desc_ok False d
                 \<and> python_value (d_val d) = Inr (as_lists x)"
      by (intro exI [of _ "(ts, None, [], n)"]) (simp add: value_desc_ok d_val_def)
  qed
  have b: "bracket_ok ListStart ListEnd False" by (simp add: bracket_ok_def)
  from container_roundtrip [of ListStart ListEnd False "\<lambda>x s. to_tokens c x s False False" xs
         "\<lambda>d x. python_value (d_val d) = Inr (as_lists x)" "''[''" "'']''" s, OF b descs]
  obtain ts ci its ds where r:
    "container (\<lambda>x s. to_tokens c x s False False) (Tok ListStart ''['') (Tok ListEnd '']'') xs s
       = Inr ts"
    "value_tokens ts (mk False ci its)"
    "map key its = map d_key ds" "map val its = map d_val ds"
    "list_all2 (\<lambda>d x. python_value (d_val d) = Inr (as_lists x)) ds xs"
    by blast
  have "python_value (List ci its) = Inr (PList (map as_lists xs))"
    using r(3,4,5) by (rule python_value_list)
  then show ?case
    using r(1,2) by (auto simp: to_tokens.simps mk_def)
next
  case (3 xs)
  have descs: "\<exists>ds. collect (map (\<lambda>x. to_tokens c x s' False False) xs) = Inr (map fst ds)
                  \<and> (\<forall>d \<in> set ds. desc_ok False d)
                  \<and> list_all2 (\<lambda>d x. python_value (d_val d) = Inr (as_lists x)) ds xs" for s'
  proof (rule build_descs, rule ballI)
    fix x assume x: "x \<in> set xs"
    then have "plain x" using "3.prems" by simp
    from "3.IH" [OF x this, of s' False] obtain ts n
      where "to_tokens c x s' False False = Inr ts" "value_tokens ts n"
        "python_value n = Inr (as_lists x)" by blast
    then show "\<exists>d. to_tokens c x s' False False = Inr (fst d) \<and> desc_ok False d
                 \<and> python_value (d_val d) = Inr (as_lists x)"
      by (intro exI [of _ "(ts, None, [], n)"]) (simp add: value_desc_ok d_val_def)
  qed
  have b: "bracket_ok ListStart ListEnd False" by (simp add: bracket_ok_def)
  from container_roundtrip [of ListStart ListEnd False "\<lambda>x s. to_tokens c x s False False" xs
         "\<lambda>d x. python_value (d_val d) = Inr (as_lists x)" "''[''" "'']''" s, OF b descs]
  obtain ts ci its ds where r:
    "container (\<lambda>x s. to_tokens c x s False False) (Tok ListStart ''['') (Tok ListEnd '']'') xs s
       = Inr ts"
    "value_tokens ts (mk False ci its)"
    "map key its = map d_key ds" "map val its = map d_val ds"
    "list_all2 (\<lambda>d x. python_value (d_val d) = Inr (as_lists x)) ds xs"
    by blast
  have "python_value (List ci its) = Inr (PList (map as_lists xs))"
    using r(3,4,5) by (rule python_value_list)
  then show ?case
    using r(1,2) by (auto simp: to_tokens.simps mk_def)
next
  case (4 dct)
  have each: "\<forall>kv \<in> set dct. is_prim (fst kv) \<and>
             (\<exists>ts n. to_tokens c (snd kv) s' False False = Inr ts \<and> value_tokens ts n
                   \<and> python_value n = Inr (as_lists (snd kv)))" for s'
    using "4.IH" "4.prems" by simp
  have descs: "\<exists>ds. collect (map (\<lambda>kv. map_item_tokens c kv s') dct) = Inr (map fst ds)
           \<and> (\<forall>d \<in> set ds. desc_ok True d) \<and> list_all2 (entry_rel as_lists) ds dct" for s'
    using entry_descs [OF each, of s'] entry_desc_ok by blast
  have b: "bracket_ok MapStart MapEnd True" by (simp add: bracket_ok_def)
  from container_roundtrip [of MapStart MapEnd True "map_item_tokens c" dct
         "entry_rel as_lists" "''{''" "''}''" s, OF b descs]
  obtain ts ci its ds where r:
    "container (map_item_tokens c) (Tok MapStart ''{'') (Tok MapEnd ''}'') dct s = Inr ts"
    "value_tokens ts (mk True ci its)"
    "map key its = map d_key ds" "map val its = map d_val ds"
    "list_all2 (entry_rel as_lists) ds dct"
    by blast
  have dk: "distinct_keys (map fst dct)" using "4.prems" by simp
  have "python_value (Map ci its) =
          Inr (PDict (map (\<lambda>kv. (fst kv, as_lists (snd kv))) dct))"
    using r(3,4) r(5) [unfolded entry_rel_def [abs_def]] dk by (rule python_value_map)
  then show ?case
    using r(1,2) by (auto simp: to_tokens.simps mk_def)
next
  case 5
  then show ?case by simp
qed


lemma parse_value_doc:
  assumes "value_tokens ts n"
  shows "parse_from_tokens (ts @ [Tok EOF []]) = Inr (Item [] None [] n [Tok EOF []])"
proof -
  obtain t ts' where ts: "ts = t # ts'" and sv: "starts_value t"
    using value_tokens_starts [OF assms] by blast
  have nt: "\<not> is_head_trivia t" using sv by (rule starts_value_not_trivia)
  have se: "\<not> starts_entry (ts @ [Tok EOF []])"
    using assms by (auto simp: value_tokens_def)
  have pv: "parse_value (ts @ [Tok EOF []]) = Inr (n, [Tok EOF []])"
    using assms by (simp add: value_tokens_def)
  have tk: "takeWhile is_head_trivia (ts @ [Tok EOF []]) = []"
    "dropWhile is_head_trivia (ts @ [Tok EOF []]) = ts @ [Tok EOF []]"
    using nt ts by simp_all
  show ?thesis
    by (simp add: parse_from_tokens_def tk se pv is_doc_trivia_def is_head_trivia_def)
qed

lemma parse_entries_doc:
  assumes "\<forall>d \<in> set ds. entry_desc d" "ds \<noteq> []"
  shows "parse_from_tokens (concat (map (\<lambda>d. fst d @ [Tok NL nl_src]) ds) @ [Tok EOF []]) =
           Inr (Item [] None []
                  (Map \<lparr>is_multiline = True, is_top_level_style = True,
                        c_head = [], c_tail = []\<rparr> (top_items ds)) [Tok EOF []])"
proof -
  let ?ts = "concat (map (\<lambda>d. fst d @ [Tok NL nl_src]) ds) @ [Tok EOF []]"
  obtain d ds' where ds: "ds = d # ds'" using assms(2) by (cases ds) auto
  then obtain kp vt where d: "fst d = PrimTok kp # Tok Colon '':'' # Tok Space '' '' # vt"
    using assms(1) by (auto simp: entry_desc_def)
  have tk: "takeWhile is_head_trivia ?ts = []" "dropWhile is_head_trivia ?ts = ?ts"
    and se: "starts_entry ?ts"
    by (simp_all add: ds d is_head_trivia_def)
  have pt: "parse_top_items ?ts = Inr (top_items ds, [Tok EOF []])"
    by (rule parse_top_items_entries [OF _ assms(1)]) (simp add: is_head_trivia_def)
  show ?thesis
    unfolding parse_from_tokens_def Let_def tk
    by (simp add: se pt is_doc_trivia_def is_head_trivia_def)
qed

text \<open>
  Claim C2, as amended. For every plain value (keys of dicts primitive and pairwise
  unequal), every codec and all settings, synthesizing the value and parsing the tokens
  succeeds, and the projection of the tree is the value with its tuples read as lists: the
  same primitives, the same order, the same keys with the same values in order.
\<close>

theorem synthesize_then_project:
  assumes "plain v"
  shows "\<exists>n. to_ast c v s as_key top_level_map = Inr n \<and> python_value n = Inr (as_lists v)"
proof (cases "\<exists>dct. v = PDict dct \<and> dct \<noteq> [] \<and> top_level_map \<and> indent s = 0")
  case True
  then obtain dct where v: "v = PDict dct" and ne: "dct \<noteq> []"
    and tl: "top_level_map" "indent s = 0" by blast
  have each: "\<forall>kv \<in> set dct. is_prim (fst kv) \<and>
             (\<exists>ts n. to_tokens c (snd kv) s False False = Inr ts \<and> value_tokens ts n
                   \<and> python_value n = Inr (as_lists (snd kv)))"
    using assms v to_tokens_roundtrip [of _ c s False] by simp
  from entry_descs [OF each] obtain ds where
    ds: "collect (map (\<lambda>kv. map_item_tokens c kv s) dct) = Inr (map fst ds)"
      "\<forall>d \<in> set ds. entry_desc d" "list_all2 (entry_rel as_lists) ds dct"
    by blast
  have dsne: "ds \<noteq> []" using ds(3) ne by auto
  have tok: "to_tokens c v s as_key top_level_map =
               Inr (concat (map (\<lambda>d. fst d @ [Tok NL nl_src]) ds))"
    using v ne tl ds(1)
    by (simp add: to_tokens.simps top_level_map_loop_collect comp_def)
  have dk: "distinct_keys (map fst dct)" using assms v by simp
  have fields: "map key (top_items ds) = map d_key ds" "map val (top_items ds) = map d_val ds"
    by (simp_all add: top_items_fields d_key_def d_val_def split_def)
  have "python_value (Map \<lparr>is_multiline = True, is_top_level_style = True,
                        c_head = [], c_tail = []\<rparr> (top_items ds)) =
          Inr (PDict (map (\<lambda>kv. (fst kv, as_lists (snd kv))) dct))"
    using fields ds(3) [unfolded entry_rel_def [abs_def]] dk by (rule python_value_map)
  moreover have "to_ast c v s as_key top_level_map =
          Inr (Map \<lparr>is_multiline = True, is_top_level_style = True,
                    c_head = [], c_tail = []\<rparr> (top_items ds))"
    by (simp add: to_ast_def tok parse_entries_doc [OF ds(2) dsne])
  ultimately show ?thesis
    by (intro exI [of _ "Map \<lparr>is_multiline = True, is_top_level_style = True,
                    c_head = [], c_tail = []\<rparr> (top_items ds)"])
       (simp only: v as_lists.simps simp_thms)
next
  case False
  then have same: "to_tokens c v s as_key top_level_map = to_tokens c v s as_key False"
    by (cases v) (auto simp: to_tokens.simps)
  from to_tokens_roundtrip [OF assms, of c s as_key] obtain ts n
    where r: "to_tokens c v s as_key False = Inr ts" "value_tokens ts n"
      "python_value n = Inr (as_lists v)" by blast
  show ?thesis
    using r by (simp add: to_ast_def same parse_value_doc)
qed

theorem synthesize_then_project_witness:
  "\<exists>n. to_ast scenario_codec tuple_value
          \<lparr>indent = 0, bare_keys = True, inline_small_containers = True\<rparr> False True = Inr n
      \<and> python_value n =
          Inr (PDict [(PPrim (PStr ''x''), PList [PPrim (PInt 1), PPrim (PInt 2)]),
                      (PPrim (PInt 3), PPrim PNone)])"
  using synthesize_then_project [of tuple_value scenario_codec
          "\<lparr>indent = 0, bare_keys = True, inline_small_containers = True\<rparr>" False True]
  by (simp add: tuple_value_def)

text \<open>
  Claim C2 as stated fails for a dict with a tuple as key: the key is synthesized as a
  list, which the parser does not take as a key, so there is no tree to project. (A tree
  with such a key could not be projected either: a list is not hashable.)
\<close>

theorem tuple_key_counterexample:
  "distinct_keys (map fst [(PTuple [PPrim (PInt 1), PPrim (PInt 2)], PPrim (PInt 3))])
   \<and> to_ast scenario_codec
        (PDict [(PTuple [PPrim (PInt 1), PPrim (PInt 2)], PPrim (PInt 3))])
        DEFAULT False False = Inl (Raise ParseError [])
   \<and> to_ast scenario_codec
        (PDict [(PTuple [PPrim (PInt 1), PPrim (PInt 2)], PPrim (PInt 3))])
        \<lparr>indent = 0, bare_keys = True, inline_small_containers = True\<rparr> False True =
      Inl (Raise ParseError [])"
  by (simp add: to_ast_def to_tokens.simps map_item_tokens.simps container_def inline_def
        multiline_def indented_def DEFAULT_def parse_from_tokens_def parse_items.simps
        parse_top_items.simps is_head_trivia_def is_doc_trivia_def perr_def
        take_tail_def has_comma_def spaces4_def)


end
